theory Spec2Isabelle
  imports Complex_Main
begin

section \<open>The tone clip processor: data model\<close>

text \<open>
  The embedding follows \<^verbatim>\<open>src/tone_processor.py\<close>. Python floats are modelled as
  exact reals: timestamps, durations, gaps and the pad are values of type \<open>real\<close>, so
  additions, subtractions and comparisons are the exact ones and rounding error of the
  binary representation is outside the model. Python ints are \<open>int\<close>. A raised exception
  is the \<open>Inl\<close> branch of a sum type.
\<close>

type_synonym segment = "real \<times> real"

datatype runtime_message =
    NoSegmentsAvailable
  | DetectedOnly nat int
  | UnableToReduce int nat
  | NoExportsAvailable
  | NoSpeechDetected
  | CommandFailed "string list"

datatype error =
    RuntimeError runtime_message
  | ValueError
  | IndexError
  | ZeroDivisionError

record DetectSettings =
  enabled :: bool
  noise_db :: real
  min_silence :: real
  pad :: real

record ClipSettings =
  count :: int
  names :: "string list"

record GeneralSettings =
  input_path :: string
  output_dir :: string
  audio_format :: string
  combined_name :: string

record ProcessorConfig =
  general :: GeneralSettings
  detect :: DetectSettings
  clips :: ClipSettings

text \<open>\<^verbatim>\<open>range(start, stop, step)\<close> for a positive step, and \<^verbatim>\<open>range(n)\<close>.\<close>

definition py_range3 :: "int \<Rightarrow> int \<Rightarrow> int \<Rightarrow> int list" where
  "py_range3 start stop step =
     map (\<lambda>k. start + step * int k) [0 ..< nat ((stop - start + step - 1) div step)]"

definition py_range :: "int \<Rightarrow> int list" where
  "py_range n = map int [0 ..< nat n]"

definition MIN_SEGMENT_DURATION :: real where
  "MIN_SEGMENT_DURATION = 5 / 100"

definition MERGE_GAPS_SECONDS :: "real list" where
  "MERGE_GAPS_SECONDS = map (\<lambda>i. real_of_int i / 1000) (py_range3 60 301 10)"

section \<open>Padding and speech inversion\<close>

text \<open>
  \<^verbatim>\<open>_apply_padding\<close>: the loop appends the clamped window of a segment when the window
  is at least \<open>MIN_SEGMENT_DURATION\<close> long. Python's \<^verbatim>\<open>max(0.0, x)\<close> and
  \<^verbatim>\<open>min(duration, y)\<close> are \<open>max\<close> and \<open>min\<close> on the reals.
\<close>

fun apply_padding_loop :: "real \<Rightarrow> real \<Rightarrow> segment list \<Rightarrow> segment list \<Rightarrow> segment list" where
  "apply_padding_loop p duration [] padded = padded"
| "apply_padding_loop p duration ((start, stop) # rest) padded =
     (let window_start = max 0 (start - p);
          window_end = min duration (stop + p)
      in if window_end - window_start \<ge> MIN_SEGMENT_DURATION
         then apply_padding_loop p duration rest (padded @ [(window_start, window_end)])
         else apply_padding_loop p duration rest padded)"

definition apply_padding :: "ProcessorConfig \<Rightarrow> segment list \<Rightarrow> real \<Rightarrow> segment list" where
  "apply_padding cfg segments duration =
     apply_padding_loop (pad (detect cfg)) duration segments []"

text \<open>
  \<^verbatim>\<open>_silences_to_speech\<close>: the loop state is the list built so far and
  \<^verbatim>\<open>previous_end\<close>; the epsilon is \<^verbatim>\<open>1e-3\<close>.
\<close>

fun silences_to_speech_loop :: "segment list \<Rightarrow> segment list \<Rightarrow> real \<Rightarrow> segment list \<times> real" where
  "silences_to_speech_loop [] speech_segments previous_end = (speech_segments, previous_end)"
| "silences_to_speech_loop ((start, stop) # rest) speech_segments previous_end =
     silences_to_speech_loop rest
       (if start - previous_end > 1 / 1000
        then speech_segments @ [(previous_end, start)] else speech_segments)
       stop"

definition silences_to_speech :: "segment list \<Rightarrow> real \<Rightarrow> segment list" where
  "silences_to_speech silences duration =
     (case silences_to_speech_loop silences [] 0 of
        (speech_segments, previous_end) \<Rightarrow>
          if duration - previous_end > 1 / 1000
          then speech_segments @ [(previous_end, duration)]
          else speech_segments)"

section \<open>Pairing silence events\<close>

text \<open>
  \<^verbatim>\<open>_pair_silences\<close>: events are pairs of a tag (\<^verbatim>\<open>"start"\<close> or \<^verbatim>\<open>"end"\<close>) and a
  timestamp; \<^verbatim>\<open>list.sort\<close> with a key is stable, as \<open>sort_key\<close> is. The sweep keeps
  \<^verbatim>\<open>current_start\<close> as an option.
\<close>

fun pair_silences_loop ::
  "(string \<times> real) list \<Rightarrow> segment list \<Rightarrow> real option \<Rightarrow> segment list \<times> real option" where
  "pair_silences_loop [] silences current_start = (silences, current_start)"
| "pair_silences_loop ((kind, timestamp) # rest) silences current_start =
     (if kind = ''start''
      then (if current_start = None
            then pair_silences_loop rest silences (Some timestamp)
            else pair_silences_loop rest silences current_start)
      else (case (if current_start = None then Some 0 else current_start) of
              Some s \<Rightarrow> pair_silences_loop rest (silences @ [(s, timestamp)]) None
            | None \<Rightarrow> pair_silences_loop rest silences None))"

definition pair_silences :: "real list \<Rightarrow> real list \<Rightarrow> real \<Rightarrow> segment list" where
  "pair_silences starts ends duration =
     (let events = sort_key snd
                     (map (\<lambda>v. (''start'', v)) starts @ map (\<lambda>v. (''end'', v)) ends)
      in case pair_silences_loop events [] None of
           (silences, current_start) \<Rightarrow>
             (case current_start of
                Some s \<Rightarrow> silences @ [(s, duration)]
              | None \<Rightarrow> silences))"

section \<open>Merging and fitting to the target count\<close>

text \<open>
  \<^verbatim>\<open>_merge_adjacent\<close>: \<^verbatim>\<open>segments[0]\<close> raises IndexError on an empty sequence. The
  loop reads and overwrites \<^verbatim>\<open>merged[-1]\<close>; the list is never empty there, and the
  model keeps the failing branch of the read.
\<close>

fun merge_adjacent_loop :: "real \<Rightarrow> segment list \<Rightarrow> segment list \<Rightarrow> error + segment list" where
  "merge_adjacent_loop gap_size [] merged = Inr merged"
| "merge_adjacent_loop gap_size ((start, stop) # rest) merged =
     (if merged = [] then Inl IndexError
      else case last merged of
        (last_start, last_end) \<Rightarrow>
          if start - last_end \<le> gap_size
          then merge_adjacent_loop gap_size rest
                 (merged[length merged - 1 := (last_start, max last_end stop)])
          else merge_adjacent_loop gap_size rest (merged @ [(start, stop)]))"

definition merge_adjacent :: "segment list \<Rightarrow> real \<Rightarrow> error + segment list" where
  "merge_adjacent segments gap_size =
     (case segments of
        [] \<Rightarrow> Inl IndexError
      | s # rest \<Rightarrow> merge_adjacent_loop gap_size rest [s])"

text \<open>\<^verbatim>\<open>best[:target]\<close>: a negative bound counts from the end of the list.\<close>

definition py_slice_to :: "'a list \<Rightarrow> int \<Rightarrow> 'a list" where
  "py_slice_to xs t =
     (if t \<ge> 0 then take (nat t) xs else take (nat (int (length xs) + t)) xs)"

text \<open>
  The \<^verbatim>\<open>for gap in MERGE_GAPS_SECONDS\<close> loop of \<^verbatim>\<open>_fit_segments_to_target\<close>: each
  pass merges the result of the pass before it, and the loop breaks at the first pass
  whose result has at most \<open>target\<close> segments.
\<close>

fun fit_loop :: "real list \<Rightarrow> segment list \<Rightarrow> int \<Rightarrow> error + segment list" where
  "fit_loop [] best target = Inr best"
| "fit_loop (gap # gaps) best target =
     (case merge_adjacent best gap of
        Inl e \<Rightarrow> Inl e
      | Inr merged \<Rightarrow>
          if int (length merged) \<le> target then Inr merged
          else fit_loop gaps merged target)"

definition fit_segments_to_target :: "ProcessorConfig \<Rightarrow> segment list \<Rightarrow> error + segment list" where
  "fit_segments_to_target cfg segments =
     (if segments = [] then Inl (RuntimeError NoSegmentsAvailable)
      else
        let target = count (clips cfg);
            ordered = sort_key fst segments
        in if int (length ordered) = target then Inr ordered
           else if int (length ordered) < target
           then Inl (RuntimeError (DetectedOnly (length ordered) target))
           else case fit_loop MERGE_GAPS_SECONDS ordered target of
                  Inl e \<Rightarrow> Inl e
                | Inr best \<Rightarrow>
                    let best' = (if int (length best) > target
                                 then py_slice_to best target else best)
                    in if int (length best') < target
                       then Inl (RuntimeError (UnableToReduce target (length best')))
                       else Inr best')"

section \<open>Even splitting\<close>

text \<open>
  \<^verbatim>\<open>round(x, n)\<close> on the exact value: the nearest multiple of \<open>10\<^sup>-\<^sup>n\<close>, a tie going to
  the even one.
\<close>

definition py_round :: "real \<Rightarrow> nat \<Rightarrow> real" where
  "py_round x ndigits =
     (let y = x * 10 ^ ndigits;
          f = \<lfloor>y\<rfloor>;
          d = y - real_of_int f
      in real_of_int (if d < 1 / 2 then f
                      else if d > 1 / 2 then f + 1
                      else if even f then f else f + 1) / 10 ^ ndigits)"

definition split_evenly :: "ProcessorConfig \<Rightarrow> real \<Rightarrow> error + segment list" where
  "split_evenly cfg duration =
     (if count (clips cfg) = 0 then Inl ZeroDivisionError
      else
        let segment_length = duration / real_of_int (count (clips cfg))
        in Inr (map (\<lambda>idx.
                  let start = real_of_int idx * segment_length;
                      stop = (if idx = count (clips cfg) - 1 then duration
                              else real_of_int (idx + 1) * segment_length)
                  in (py_round start 5, py_round stop 5))
                (py_range (count (clips cfg)))))"

section \<open>Parsing the silence log\<close>

text \<open>
  A log is a \<open>string\<close>; characters are the code points below 256. \<^verbatim>\<open>str.splitlines\<close>
  breaks at \<^verbatim>\<open>\n\<close>, \<^verbatim>\<open>\r\<close>, \<^verbatim>\<open>\r\n\<close>, \<^verbatim>\<open>\v\<close>, \<^verbatim>\<open>\f\<close>, \<^verbatim>\<open>\x1c\<close>, \<^verbatim>\<open>\x1d\<close>,
  \<^verbatim>\<open>\x1e\<close> and \<^verbatim>\<open>\x85\<close>, and gives no empty last line. The class \<^verbatim>\<open>\s\<close> of a str
  pattern is the whitespace of \<^verbatim>\<open>str.isspace\<close>.
\<close>

definition is_linebreak :: "char \<Rightarrow> bool" where
  "is_linebreak c \<longleftrightarrow>
     c \<in> set [CHR 0x0A, CHR 0x0B, CHR 0x0C, CHR 0x0D, CHR 0x1C, CHR 0x1D, CHR 0x1E, CHR 0x85]"

definition is_space :: "char \<Rightarrow> bool" where
  "is_space c \<longleftrightarrow>
     c \<in> set [CHR 0x09, CHR 0x0A, CHR 0x0B, CHR 0x0C, CHR 0x0D, CHR 0x1C, CHR 0x1D,
              CHR 0x1E, CHR 0x1F, CHR 0x20, CHR 0x85, CHR 0xA0]"

definition is_number_char :: "char \<Rightarrow> bool" where
  "is_number_char c \<longleftrightarrow> c \<in> set ''0123456789.''"

fun splitlines_from :: "string \<Rightarrow> string \<Rightarrow> string list" where
  "splitlines_from line [] = (if line = [] then [] else [line])"
| "splitlines_from line [c] = (if is_linebreak c then [line] else [line @ [c]])"
| "splitlines_from line (c # d # cs) =
     (if c = CHR 0x0D \<and> d = CHR 0x0A then line # splitlines_from [] cs
      else if is_linebreak c then line # splitlines_from [] (d # cs)
      else splitlines_from (line @ [c]) (d # cs))"

definition splitlines :: "string \<Rightarrow> string list" where
  "splitlines s = splitlines_from [] s"

text \<open>
  \<^verbatim>\<open>SILENCE_START_RE\<close> and \<^verbatim>\<open>SILENCE_END_RE\<close> are a literal followed by
  \<^verbatim>\<open>\s*([0-9.]+)\<close>. A match at a position needs the literal, then all the whitespace
  that follows (no whitespace character is in the group's class, so no shorter run can
  match), then at least one character of the class; the group is greedy. \<^verbatim>\<open>search\<close>
  returns the leftmost match; \<open>re_search\<close> returns its group 1.
\<close>

definition SILENCE_START_RE :: string where
  "SILENCE_START_RE = ''silence_start:''"

definition SILENCE_END_RE :: string where
  "SILENCE_END_RE = ''silence_end:''"

definition re_match_at :: "string \<Rightarrow> string \<Rightarrow> string option" where
  "re_match_at literal s =
     (if take (length literal) s = literal
      then (let group1 = takeWhile is_number_char
                           (dropWhile is_space (drop (length literal) s))
            in if group1 = [] then None else Some group1)
      else None)"

fun re_search :: "string \<Rightarrow> string \<Rightarrow> string option" where
  "re_search literal [] = re_match_at literal []"
| "re_search literal (c # cs) =
     (case re_match_at literal (c # cs) of
        Some group1 \<Rightarrow> Some group1
      | None \<Rightarrow> re_search literal cs)"

text \<open>
  \<^verbatim>\<open>float(token)\<close> for a token over digits and dots, which is all the group can hold:
  it raises ValueError unless the token has at most one dot and at least one digit.
\<close>

definition digits_value :: "string \<Rightarrow> nat" where
  "digits_value ds = foldl (\<lambda>acc c. 10 * acc + (of_char c - 48)) 0 ds"

definition py_float :: "string \<Rightarrow> error + real" where
  "py_float token =
     (let int_part = takeWhile (\<lambda>c. c \<noteq> CHR ''.'') token;
          rest = dropWhile (\<lambda>c. c \<noteq> CHR ''.'') token
      in if rest = []
         then (if int_part = [] then Inl ValueError else Inr (real (digits_value int_part)))
         else
           let frac_part = tl rest
           in if CHR ''.'' \<in> set frac_part \<or> (int_part = [] \<and> frac_part = [])
              then Inl ValueError
              else Inr (real (digits_value int_part)
                        + real (digits_value frac_part) / 10 ^ length frac_part))"

definition append_match :: "string \<Rightarrow> string \<Rightarrow> real list \<Rightarrow> error + real list" where
  "append_match literal line values =
     (case re_search literal line of
        None \<Rightarrow> Inr values
      | Some group1 \<Rightarrow>
          (case py_float group1 of
             Inl e \<Rightarrow> Inl e
           | Inr v \<Rightarrow> Inr (values @ [v])))"

fun parse_lines :: "string list \<Rightarrow> real list \<Rightarrow> real list \<Rightarrow> error + (real list \<times> real list)" where
  "parse_lines [] starts ends = Inr (starts, ends)"
| "parse_lines (line # rest) starts ends =
     (case append_match SILENCE_START_RE line starts of
        Inl e \<Rightarrow> Inl e
      | Inr starts' \<Rightarrow>
          (case append_match SILENCE_END_RE line ends of
             Inl e \<Rightarrow> Inl e
           | Inr ends' \<Rightarrow> parse_lines rest starts' ends'))"

definition parse_silence_log :: "string \<Rightarrow> error + (real list \<times> real list)" where
  "parse_silence_log log_text = parse_lines (splitlines log_text) [] []"

section \<open>Combining the exports\<close>

text \<open>
  The file system is a map from paths to file contents, passed through the function.
  The external command is a parameter \<open>tool\<close>: given the command line and the file
  system it returns the file system it leaves and its return code; \<^verbatim>\<open>_run\<close> raises
  when the code is not zero. The \<^verbatim>\<open>finally\<close> block runs on both outcomes. Writing and
  unlinking a regular file are taken to succeed.
\<close>

type_synonym filesystem = "string \<rightharpoonup> string"

type_synonym external_tool = "string list \<Rightarrow> filesystem \<Rightarrow> filesystem \<times> int"

record export =
  export_name :: string
  export_start :: real
  export_end :: real
  export_duration :: real
  export_path :: string

definition path_join :: "string \<Rightarrow> string \<Rightarrow> string" where
  "path_join base child =
     (if child \<noteq> [] \<and> hd child = CHR ''/'' then child else base @ ''/'' @ child)"

definition run :: "external_tool \<Rightarrow> string list \<Rightarrow> filesystem \<Rightarrow> filesystem \<times> (error + unit)" where
  "run tool cmd fs =
     (case tool cmd fs of
        (fs', returncode) \<Rightarrow>
          if returncode \<noteq> 0 then (fs', Inl (RuntimeError (CommandFailed cmd)))
          else (fs', Inr ()))"

definition concat_list_line :: "export \<Rightarrow> string" where
  "concat_list_line ex =
     (let escaped = concat (map (\<lambda>c. if c = CHR 0x27 then [CHR 0x5C, CHR 0x27] else [c])
                                (export_path ex))
      in ''file '' @ [CHR 0x27] @ escaped @ [CHR 0x27, CHR 0x0A])"

definition combine_exports ::
  "external_tool \<Rightarrow> ProcessorConfig \<Rightarrow> export list \<Rightarrow> filesystem \<Rightarrow> filesystem \<times> (error + string)" where
  "combine_exports tool cfg exports fs =
     (let combined_path = path_join (output_dir (general cfg)) (combined_name (general cfg))
      in if exports = [] then (fs, Inl (RuntimeError NoExportsAvailable))
         else
           let concat_file = path_join (output_dir (general cfg)) ''.tone_concat.txt'';
               fs1 = fs(concat_file \<mapsto> concat (map concat_list_line exports));
               cmd = [''ffmpeg'', ''-y'', ''-f'', ''concat'', ''-safe'', ''0'', ''-i'',
                      concat_file, ''-c'', ''copy'', combined_path]
           in case run tool cmd fs1 of
                (fs2, outcome) \<Rightarrow>
                  let fs3 = (if fs2 concat_file \<noteq> None then fs2(concat_file := None) else fs2)
                  in (fs3, case outcome of Inl e \<Rightarrow> Inl e | Inr u \<Rightarrow> Inr combined_path))"

section \<open>Choosing the candidate segments\<close>

text \<open>
  \<^verbatim>\<open>_detect_segments\<close>, given the text that the silence-detection command wrote to its
  error stream: parse, pair, invert, pad, and raise when nothing is left.
\<close>

definition detect_segments :: "ProcessorConfig \<Rightarrow> string \<Rightarrow> real \<Rightarrow> error + segment list" where
  "detect_segments cfg stderr_text duration =
     (case parse_silence_log stderr_text of
        Inl e \<Rightarrow> Inl e
      | Inr (starts, ends) \<Rightarrow>
          let silences = pair_silences starts ends duration;
              speech_segments = silences_to_speech silences duration;
              padded = apply_padding cfg speech_segments duration
          in if padded = [] then Inl (RuntimeError NoSpeechDetected) else Inr padded)"

text \<open>
  The value of \<^verbatim>\<open>"segments"\<close> in the result of \<^verbatim>\<open>run\<close>, as a function of the probed
  duration and of the outcome of the silence-detection command (an error when the
  command fails, its error stream otherwise). The conditional expression of lines 134
  to 138 runs the detection only when \<^verbatim>\<open>detect.enabled\<close> holds, and the candidates go
  through the fitter. Conversion, probing, export and combination are external commands
  and are not part of this function.
\<close>

definition run_segments ::
  "ProcessorConfig \<Rightarrow> real \<Rightarrow> error + string \<Rightarrow> error + segment list" where
  "run_segments cfg duration detection =
     (case (if enabled (detect cfg)
            then (case detection of
                    Inl e \<Rightarrow> Inl e
                  | Inr stderr_text \<Rightarrow> detect_segments cfg stderr_text duration)
            else split_evenly cfg duration) of
        Inl e \<Rightarrow> Inl e
      | Inr segments \<Rightarrow> fit_segments_to_target cfg segments)"

section \<open>A configuration for the worked examples\<close>

text \<open>
  The defaults of \<^verbatim>\<open>ProcessorConfig.from_toml\<close> for the detector, with the clip count
  and the pad left open.
\<close>

definition example_config :: "int \<Rightarrow> real \<Rightarrow> ProcessorConfig" where
  "example_config n p =
     \<lparr>general = \<lparr>input_path = ''/in/tones.wav'', output_dir = ''/out'',
                 audio_format = ''mp3'', combined_name = ''all.mp3''\<rparr>,
      detect = \<lparr>enabled = True, noise_db = - 30, min_silence = 6 / 100, pad = p\<rparr>,
      clips = \<lparr>count = n, names = []\<rparr>\<rparr>"

section \<open>Auxiliary definitions used in the statements and proofs\<close>

text \<open>
  One merge pass as a function of the interval being grown and the segments still to
  read: the state of \<^verbatim>\<open>_merge_adjacent\<close>'s loop without the finished prefix.
\<close>

fun merge_run :: "real \<Rightarrow> segment \<Rightarrow> segment list \<Rightarrow> segment list" where
  "merge_run g cur [] = [cur]"
| "merge_run g cur ((start, stop) # rest) =
     (if start - snd cur \<le> g then merge_run g (fst cur, max (snd cur) stop) rest
      else cur # merge_run g (start, stop) rest)"

text \<open>
  The tokens that the pattern with the given literal captures in a list of lines, one
  for each line with a match, and the number a well-formed token denotes.
\<close>

definition matched_tokens :: "string \<Rightarrow> string list \<Rightarrow> string list" where
  "matched_tokens literal lines = List.map_filter (re_search literal) lines"

definition float_value :: "string \<Rightarrow> real" where
  "float_value token = (case py_float token of Inr v \<Rightarrow> v | Inl e \<Rightarrow> 0)"

text \<open>
  A stand-in for the external concatenation command: it fails with code 2 when its
  input list (argument 7 of the command line) does not exist, and otherwise writes the
  combined file (the last argument) and returns the given code.
\<close>

definition tool_needs_list :: "int \<Rightarrow> external_tool" where
  "tool_needs_list rc cmd fs =
     (if fs (cmd ! 7) = None then (fs, 2) else (fs(last cmd \<mapsto> ''combined''), rc))"

definition example_export :: export where
  "example_export = \<lparr>export_name = ''a1'', export_start = 0, export_end = 1,
                      export_duration = 1, export_path = ''/out/clips/a1.mp3''\<rparr>"

text \<open>
  Twelve one-second segments whose gaps alternate 40 ms and 500 ms, for Scenario B.
\<close>

definition scenario_B_segments :: "segment list" where
  "scenario_B_segments =
     [(0, 1),
      (26 / 25, 51 / 25),
      (127 / 50, 177 / 50),
      (179 / 50, 229 / 50),
      (127 / 25, 152 / 25),
      (153 / 25, 178 / 25),
      (381 / 50, 431 / 50),
      (433 / 50, 483 / 50),
      (254 / 25, 279 / 25),
      (56 / 5, 61 / 5),
      (127 / 10, 137 / 10),
      (687 / 50, 737 / 50)]"

text \<open>
  The two halves of the invariant of an ordered interval sequence: starts ascending,
  and each interval ending no later than the next one starts.
\<close>

definition sorted_by_start :: "segment list \<Rightarrow> bool" where
  "sorted_by_start xs \<longleftrightarrow> sorted (map fst xs)"

definition non_overlapping :: "segment list \<Rightarrow> bool" where
  "non_overlapping xs \<longleftrightarrow> (\<forall>i. Suc i < length xs \<longrightarrow> snd (xs ! i) \<le> fst (xs ! Suc i))"

text \<open>
  The coalescing of a non-empty run of intervals: from the least start to the greatest
  end, the smallest interval that contains every interval of the run. \<open>run_span\<close> is the
  same interval for a run sorted by start, and is what the merge pass computes.
\<close>

definition interval_union :: "segment list \<Rightarrow> segment" where
  "interval_union r = (Min (fst ` set r), Max (snd ` set r))"

definition run_span :: "segment list \<Rightarrow> segment" where
  "run_span r = (fst (hd r), Max (snd ` set r))"

text \<open>
  \<open>ys\<close> coalesces \<open>xs\<close> when \<open>xs\<close> splits into consecutive non-empty runs whose spans, in
  order, are \<open>ys\<close>. \<open>before a b\<close> is the order between an interval and a later one in an
  ordered interval sequence.
\<close>

definition coalesces :: "segment list \<Rightarrow> segment list \<Rightarrow> bool" where
  "coalesces xs ys \<longleftrightarrow>
     (\<exists>runs. concat runs = xs \<and> (\<forall>r \<in> set runs. r \<noteq> []) \<and> ys = map run_span runs)"

definition before :: "segment \<Rightarrow> segment \<Rightarrow> bool" where
  "before a b \<longleftrightarrow> fst a \<le> fst b \<and> snd a \<le> fst b"

text \<open>
  The timestamp-ordered event sequence that \<^verbatim>\<open>_pair_silences\<close> sweeps, and the condition
  that no END event directly follows another END event in it: then every END but a
  leading one closes an open START.
\<close>

definition silence_events :: "real list \<Rightarrow> real list \<Rightarrow> (string \<times> real) list" where
  "silence_events starts ends =
     sort_key snd (map (\<lambda>v. (''start'', v)) starts @ map (\<lambda>v. (''end'', v)) ends)"

definition ends_separated :: "(string \<times> real) list \<Rightarrow> bool" where
  "ends_separated events \<longleftrightarrow>
     successively (\<lambda>a b. fst a = ''start'' \<or> fst b = ''start'') events"

text \<open>
  The results of the successive merge passes of the fitter's loop, each pass merging
  the result of the one before it. The fitter overshoots a target \<open>n\<close> when the input has
  more than \<open>n\<close> segments and the first pass whose result has at most \<open>n\<close> segments has
  fewer than \<open>n\<close>: a merge pass takes the count from above \<open>n\<close> to below \<open>n\<close>.
\<close>

fun merge_passes :: "real list \<Rightarrow> segment list \<Rightarrow> segment list list" where
  "merge_passes [] best = []"
| "merge_passes (gap # gaps) best =
     (case merge_adjacent best gap of
        Inl e \<Rightarrow> []
      | Inr merged \<Rightarrow> merged # merge_passes gaps merged)"

definition overshoots :: "int \<Rightarrow> real list \<Rightarrow> segment list \<Rightarrow> bool" where
  "overshoots n gaps segments \<longleftrightarrow>
     n < int (length segments) \<and>
     (case dropWhile (\<lambda>merged. n < int (length merged)) (merge_passes gaps segments) of
        [] \<Rightarrow> False
      | merged # later \<Rightarrow> int (length merged) < n)"

text \<open>Rounding to the nearest integer, a tie going to the even one.\<close>

definition round_half_even :: "real \<Rightarrow> int" where
  "round_half_even y =
     (if y - real_of_int \<lfloor>y\<rfloor> < 1 / 2 then \<lfloor>y\<rfloor>
      else if y - real_of_int \<lfloor>y\<rfloor> > 1 / 2 then \<lfloor>y\<rfloor> + 1
      else if even \<lfloor>y\<rfloor> then \<lfloor>y\<rfloor> else \<lfloor>y\<rfloor> + 1)"

text \<open>
  The even split of a duration into \<open>n\<close> parts: part \<open>i\<close> runs from \<open>i\<close> segment lengths
  to \<open>i + 1\<close> segment lengths, both rounded to 5 decimals. A configuration with the
  silence detection switched off.
\<close>

definition even_split :: "nat \<Rightarrow> real \<Rightarrow> segment list" where
  "even_split n duration =
     map (\<lambda>i. (py_round (real i * (duration / real n)) 5,
               py_round (real (Suc i) * (duration / real n)) 5)) [0 ..< n]"

definition detection_off :: "ProcessorConfig \<Rightarrow> ProcessorConfig" where
  "detection_off cfg = cfg\<lparr>detect := (detect cfg)\<lparr>enabled := False\<rparr>\<rparr>"

section \<open>Properties of the padding applier\<close>

lemma apply_padding_loop_filter_map:
  "apply_padding_loop p duration segments padded =
     padded @ filter (\<lambda>(ws, we). we - ws \<ge> MIN_SEGMENT_DURATION)
                (map (\<lambda>(start, stop). (max 0 (start - p), min duration (stop + p))) segments)"
  by (induction segments arbitrary: padded) (auto simp: Let_def)

text \<open>
  Claim C8. The padding applier returns the input segments, in order, each mapped to
  \<open>(max 0 (start - pad), min duration (stop + pad))\<close>, keeping exactly those whose padded
  length is at least 50 ms. Hence every segment it returns starts at or after 0 and ends
  at or before the duration, and a segment whose padded length is 30 ms is dropped.
\<close>

theorem apply_padding_maps_and_filters:
  "apply_padding cfg segments duration =
     filter (\<lambda>(ws, we). we - ws \<ge> 50 / 1000)
       (map (\<lambda>(start, stop). (max 0 (start - pad (detect cfg)),
                               min duration (stop + pad (detect cfg)))) segments)
   \<and> (\<forall>(ws, we) \<in> set (apply_padding cfg segments duration). 0 \<le> ws \<and> we \<le> duration)
   \<and> (\<forall>start stop.
        min duration (stop + pad (detect cfg)) - max 0 (start - pad (detect cfg)) = 30 / 1000
        \<longrightarrow> apply_padding cfg [(start, stop)] duration = [])"
  by (auto simp: apply_padding_def apply_padding_loop_filter_map MIN_SEGMENT_DURATION_def)

theorem apply_padding_maps_and_filters_witness:
  "apply_padding (example_config 3 (5 / 1000)) [(1, 102 / 100), (0, 3), (99 / 10, 999 / 100)] 10
     = [(0, 3005 / 1000), (9895 / 1000, 9995 / 1000)]
   \<and> apply_padding (example_config 3 (5 / 1000)) [(1, 102 / 100)] 10 = []"
  using apply_padding_maps_and_filters
          [of "example_config 3 (5 / 1000)" "[(1, 102 / 100), (0, 3), (99 / 10, 999 / 100)]" 10]
        apply_padding_maps_and_filters
          [of "example_config 3 (5 / 1000)" "[(1, 102 / 100)]" 10]
  by (simp add: example_config_def)

section \<open>The empty log\<close>

text \<open>
  Claim C7, as stated, at a duration of half a millisecond: the pairer returns no
  silence, and the inverter returns no speech segment, since the trailing segment is
  emitted only when it is longer than the epsilon of 1 ms.
\<close>

theorem empty_log_tiny_duration_counterexample:
  "(0::real) < 1 / 2000 \<and> pair_silences [] [] (1 / 2000) = []
   \<and> silences_to_speech (pair_silences [] [] (1 / 2000)) (1 / 2000) = []"
  by (simp add: pair_silences_def silences_to_speech_def)

text \<open>
  Claim C7, amended. For every duration \<open>d\<close> longer than 1 ms, the pairer applied to
  empty \<open>starts\<close> and \<open>ends\<close> returns the empty silence sequence, and the inverter applied
  to it returns the single speech segment \<open>(0, d)\<close>.
\<close>

theorem empty_log_single_speech_segment:
  "1 / 1000 < d \<Longrightarrow>
     pair_silences [] [] d = [] \<and> silences_to_speech (pair_silences [] [] d) d = [(0, d)]"
  by (simp add: pair_silences_def silences_to_speech_def)

theorem empty_log_single_speech_segment_witness:
  "(1 / 1000 :: real) < 10 \<and> pair_silences [] [] 10 = []
   \<and> silences_to_speech (pair_silences [] [] 10) 10 = [(0, 10)]"
  using empty_log_single_speech_segment [of 10] by auto

section \<open>Too few candidate segments\<close>

text \<open>
  Claim C6. When the number of candidate segments is below the target count, the fitter
  raises a RuntimeError and returns no sequence: the message is that of line 218 for an
  empty input and that of lines 224 to 227, carrying both counts, otherwise.
\<close>

theorem fit_fails_when_too_few:
  "int (length segments) < count (clips cfg) \<Longrightarrow>
     fit_segments_to_target cfg segments =
       Inl (RuntimeError (if segments = [] then NoSegmentsAvailable
                          else DetectedOnly (length segments) (count (clips cfg))))"
  by (simp add: fit_segments_to_target_def Let_def)

theorem fit_fails_when_too_few_witness:
  "fit_segments_to_target (example_config 5 (7 / 100)) [(0, 1), (2, 3), (4, 5)]
     = Inl (RuntimeError (DetectedOnly 3 5))"
  using fit_fails_when_too_few [of "[(0, 1), (2, 3), (4, 5)]" "example_config 5 (7 / 100)"]
  by (simp add: example_config_def)

section \<open>Even splitting\<close>

text \<open>
  Claim C10, as stated, for one clip and a probed duration of 1.000001 s: the only
  segment ends at 1, the duration rounded to 5 decimals, not at the duration.
\<close>

theorem split_evenly_last_end_counterexample:
  "split_evenly (example_config 1 0) (1000001 / 1000000) = Inr [(0, 1)]
   \<and> (1::real) \<noteq> 1000001 / 1000000"
  by (simp add: split_evenly_def example_config_def py_range_def py_round_def Let_def)

lemma py_round_zero: "py_round 0 n = 0"
  by (simp add: py_round_def)

lemma round_half_even_bounds:
  "\<lfloor>y\<rfloor> \<le> round_half_even y \<and> round_half_even y \<le> \<lfloor>y\<rfloor> + 1"
  by (simp add: round_half_even_def)

lemma round_half_even_mono:
  assumes "y \<le> z"
  shows "round_half_even y \<le> round_half_even z"
proof (cases "\<lfloor>y\<rfloor> = \<lfloor>z\<rfloor>")
  case True
  have "y - real_of_int \<lfloor>y\<rfloor> \<le> z - real_of_int \<lfloor>z\<rfloor>" using assms True by simp
  then show ?thesis using True by (auto simp: round_half_even_def)
next
  case False
  then have "\<lfloor>y\<rfloor> + 1 \<le> \<lfloor>z\<rfloor>" using floor_mono [OF assms] by linarith
  then show ?thesis
    using round_half_even_bounds [of y] round_half_even_bounds [of z] by linarith
qed

lemma py_round_eq:
  "py_round x n = real_of_int (round_half_even (x * 10 ^ n)) / 10 ^ n"
  by (simp add: py_round_def round_half_even_def Let_def)

lemma py_round_mono: "x \<le> y \<Longrightarrow> py_round x n \<le> py_round y n"
proof -
  assume "x \<le> y"
  then have "x * 10 ^ n \<le> y * 10 ^ n" by simp
  then have "round_half_even (x * 10 ^ n) \<le> round_half_even (y * 10 ^ n)"
    by (rule round_half_even_mono)
  then show ?thesis by (simp add: py_round_eq divide_right_mono)
qed

lemma split_evenly_even_split:
  assumes "0 < count (clips cfg)"
  shows "split_evenly cfg duration = Inr (even_split (nat (count (clips cfg))) duration)"
proof -
  define n where "n = nat (count (clips cfg))"
  have n: "0 < n" "count (clips cfg) = int n" using assms by (simp_all add: n_def)
  define f where "f = (\<lambda>idx.
                  let start = real_of_int idx * (duration / real_of_int (int n));
                      stop = (if idx = int n - 1 then duration
                              else real_of_int (idx + 1) * (duration / real_of_int (int n)))
                  in (py_round start 5, py_round stop 5))"
  have eq: "split_evenly cfg duration = Inr (map f (map int [0 ..< n]))"
    using n by (simp add: split_evenly_def f_def py_range_def Let_def)
  have pt: "f (int i) = (py_round (real i * (duration / real n)) 5,
                         py_round (real (Suc i) * (duration / real n)) 5)" if "i < n" for i
  proof (cases "int i = int n - 1")
    case True
    then have nS: "n = Suc i" by linarith
    show ?thesis unfolding nS f_def by (simp add: Let_def)
  next
    case False
    then show ?thesis unfolding f_def by (simp add: Let_def add.commute)
  qed
  have "map f (map int [0 ..< n]) = even_split n duration"
    unfolding even_split_def by (intro nth_equalityI) (simp_all add: pt)
  then show ?thesis using eq by (simp add: n_def)
qed

lemma even_split_sorted:
  assumes "0 \<le> duration"
  shows "sorted (map fst (even_split n duration))"
proof -
  have "py_round (real i * (duration / real n)) 5 \<le> py_round (real (Suc i) * (duration / real n)) 5"
    for i
    using assms by (intro py_round_mono mult_right_mono) simp_all
  then show ?thesis
    by (simp add: sorted_iff_nth_Suc even_split_def)
qed

text \<open>
  Claim C10, amended. When silence detection is disabled and the clip count is
  positive, \<open>run\<close> takes its candidate segments from \<open>split_evenly\<close> without consulting the
  detection command, and for a non-negative duration the fitter returns them unchanged.
  \<open>split_evenly\<close> returns exactly \<open>count\<close> segments; segment \<open>i\<close> runs from \<open>i\<close> to \<open>i + 1\<close>
  times \<open>duration / count\<close>, both boundaries rounded to 5 decimals, so each segment's
  end equals the next segment's start, the first segment starts at 0, and the last
  segment ends at the probed duration rounded to 5 decimals.
\<close>

theorem split_evenly_when_detection_off:
  assumes off: "\<not> enabled (detect cfg)"
    and pos: "0 < count (clips cfg)"
  shows "\<exists>segments.
           split_evenly cfg duration = Inr segments
           \<and> run_segments cfg duration detection = fit_segments_to_target cfg segments
           \<and> (0 \<le> duration \<longrightarrow> run_segments cfg duration detection = Inr segments)
           \<and> int (length segments) = count (clips cfg)
           \<and> (\<forall>i < length segments.
                 segments ! i =
                   (py_round (real i * (duration / real_of_int (count (clips cfg)))) 5,
                    py_round (real (Suc i) * (duration / real_of_int (count (clips cfg)))) 5))
           \<and> (\<forall>i. Suc i < length segments \<longrightarrow> snd (segments ! i) = fst (segments ! Suc i))
           \<and> fst (hd segments) = 0
           \<and> snd (last segments) = py_round duration 5"
proof -
  define n where "n = nat (count (clips cfg))"
  define segments where "segments = even_split n duration"
  have n: "0 < n" "count (clips cfg) = int n" using pos by (simp_all add: n_def)
  have split: "split_evenly cfg duration = Inr segments"
    using split_evenly_even_split [OF pos] by (simp add: segments_def n_def)
  have len: "length segments = n" by (simp add: segments_def even_split_def)
  have run: "run_segments cfg duration detection = fit_segments_to_target cfg segments"
    using off split by (simp add: run_segments_def)
  have fit: "fit_segments_to_target cfg segments = Inr segments" if "0 \<le> duration"
  proof -
    have "sort_key fst segments = segments"
      using even_split_sorted [OF that] by (simp add: segments_def sort_key_id_if_sorted)
    moreover have "segments \<noteq> []" using len n(1) by auto
    ultimately show ?thesis using len n(2) by (simp add: fit_segments_to_target_def Let_def)
  qed
  have nth: "segments ! i = (py_round (real i * (duration / real_of_int (count (clips cfg)))) 5,
                            py_round (real (Suc i) * (duration / real_of_int (count (clips cfg)))) 5)"
    if "i < length segments" for i
    using that len n(2) by (simp add: segments_def even_split_def)
  have adj: "snd (segments ! i) = fst (segments ! Suc i)" if "Suc i < length segments" for i
    using that nth [of i] nth [of "Suc i"] by simp
  have ne: "segments \<noteq> []" using len n(1) by auto
  have first: "fst (hd segments) = 0"
    using nth [of 0] len n(1) by (simp add: hd_conv_nth [OF ne] py_round_zero)
  have "snd (last segments) = py_round (real (Suc (n - 1)) * (duration / real n)) 5"
    using nth [of "n - 1"] len n by (simp add: last_conv_nth [OF ne])
  then have lst: "snd (last segments) = py_round duration 5"
    using n(1) by simp
  show ?thesis
    using split run fit len n(2) nth adj first lst by (intro exI [of _ segments]) simp
qed

theorem split_evenly_when_detection_off_witness:
  "split_evenly (detection_off (example_config 3 0)) 10
     = Inr [(0, 333333 / 100000), (333333 / 100000, 666667 / 100000), (666667 / 100000, 10)]
   \<and> run_segments (detection_off (example_config 3 0)) 10 (Inl (RuntimeError (CommandFailed [])))
     = Inr [(0, 333333 / 100000), (333333 / 100000, 666667 / 100000), (666667 / 100000, 10)]"
proof -
  have a: "\<not> enabled (detect (detection_off (example_config 3 0)))"
    by (simp add: detection_off_def)
  have b: "0 < count (clips (detection_off (example_config 3 0)))"
    by (simp add: detection_off_def example_config_def)
  have c: "split_evenly (detection_off (example_config 3 0)) 10
     = Inr [(0, 333333 / 100000), (333333 / 100000, 666667 / 100000), (666667 / 100000, 10)]"
    by (simp add: split_evenly_def detection_off_def example_config_def py_range_def py_round_def
          Let_def upt_rec)
  show ?thesis
    using split_evenly_when_detection_off
            [OF a b, of 10 "Inl (RuntimeError (CommandFailed []))"] c
    by auto
qed

section \<open>Cleaning up the concatenation list\<close>

text \<open>
  Claim C9. When there is at least one export, so that the concatenation list is
  written, the list file does not exist in the file system that \<open>combine_exports\<close>
  leaves, whatever the external command does and returns: the function either returns
  the combined path (the command succeeded) or raises the command's RuntimeError (it
  failed), and the file is gone in both cases.
\<close>

theorem concat_list_removed_on_both_paths:
  assumes "exports \<noteq> []"
  shows "fst (combine_exports tool cfg exports fs)
           (path_join (output_dir (general cfg)) ''.tone_concat.txt'') = None
         \<and> (snd (combine_exports tool cfg exports fs)
               = Inr (path_join (output_dir (general cfg)) (combined_name (general cfg)))
             \<or> (\<exists>cmd. snd (combine_exports tool cfg exports fs)
                          = Inl (RuntimeError (CommandFailed cmd))))"
  using assms
  by (auto simp: combine_exports_def Let_def run_def split: prod.splits)

theorem concat_list_removed_on_both_paths_witness:
  "fst (combine_exports (tool_needs_list 0) (example_config 1 0) [example_export] Map.empty)
       ''/out/.tone_concat.txt'' = None
   \<and> snd (combine_exports (tool_needs_list 0) (example_config 1 0) [example_export] Map.empty)
       = Inr ''/out/all.mp3''
   \<and> fst (combine_exports (tool_needs_list 0) (example_config 1 0) [example_export] Map.empty)
       ''/out/all.mp3'' = Some ''combined''
   \<and> fst (combine_exports (tool_needs_list 1) (example_config 1 0) [example_export] Map.empty)
       ''/out/.tone_concat.txt'' = None
   \<and> snd (combine_exports (tool_needs_list 1) (example_config 1 0) [example_export] Map.empty)
       = Inl (RuntimeError (CommandFailed
           [''ffmpeg'', ''-y'', ''-f'', ''concat'', ''-safe'', ''0'', ''-i'',
            ''/out/.tone_concat.txt'', ''-c'', ''copy'', ''/out/all.mp3'']))"
  using concat_list_removed_on_both_paths
          [of "[example_export]" "tool_needs_list 0" "example_config 1 0" Map.empty]
        concat_list_removed_on_both_paths
          [of "[example_export]" "tool_needs_list 1" "example_config 1 0" Map.empty]
  by (simp add: combine_exports_def Let_def run_def tool_needs_list_def example_config_def
        example_export_def path_join_def)

section \<open>The silence-log parser\<close>

text \<open>
  Claim C3, as stated, on a one-line log whose start token is \<^verbatim>\<open>1.2.3\<close>: the pattern
  matches, \<^verbatim>\<open>float\<close> raises ValueError, and the whole parse fails.
\<close>

theorem parse_malformed_number_counterexample:
  "parse_silence_log ''silence_start: 1.2.3'' = Inl ValueError"
  by (simp add: parse_silence_log_def splitlines_def append_match_def SILENCE_START_RE_def
       re_match_at_def is_space_def is_number_char_def is_linebreak_def py_float_def)

lemma py_float_error: "py_float token = Inl e \<Longrightarrow> e = ValueError"
  by (auto simp: py_float_def Let_def split: if_splits)

lemma py_float_cases:
  "py_float token = Inl ValueError \<or> py_float token = Inr (float_value token)"
  by (cases "py_float token") (auto simp: float_value_def dest: py_float_error)

lemma append_match_eq:
  "append_match literal line values =
     (case re_search literal line of
        None \<Rightarrow> Inr values
      | Some token \<Rightarrow> if py_float token = Inl ValueError then Inl ValueError
                      else Inr (values @ [float_value token]))"
  using py_float_cases
  by (auto simp: append_match_def float_value_def split: option.splits sum.splits dest: py_float_error)

lemma parse_lines_eq:
  "parse_lines lines starts ends =
     (if \<exists>token \<in> set (matched_tokens SILENCE_START_RE lines @ matched_tokens SILENCE_END_RE lines).
           py_float token = Inl ValueError
      then Inl ValueError
      else Inr (starts @ map float_value (matched_tokens SILENCE_START_RE lines),
                ends @ map float_value (matched_tokens SILENCE_END_RE lines)))"
proof (induction lines arbitrary: starts ends)
  case Nil
  then show ?case by (simp add: matched_tokens_def map_filter_simps)
next
  case (Cons line rest)
  show ?case
    by (cases "re_search SILENCE_START_RE line"; cases "re_search SILENCE_END_RE line")
       (auto simp: Cons.IH append_match_eq matched_tokens_def map_filter_simps)
qed

text \<open>
  Claim C3, amended. The parser returns normally exactly when every token captured by
  the start pattern or the end pattern is a parseable number, and then returns the
  numbers of the captured start tokens and of the captured end tokens, each in line
  order; a line that matches neither pattern contributes nothing. When some captured
  token is not a parseable number the whole parse fails with ValueError.
\<close>

theorem parse_silence_log_characterised:
  "parse_silence_log log_text =
     (let lines = splitlines log_text;
          start_tokens = matched_tokens SILENCE_START_RE lines;
          end_tokens = matched_tokens SILENCE_END_RE lines
      in if \<exists>token \<in> set (start_tokens @ end_tokens). py_float token = Inl ValueError
         then Inl ValueError
         else Inr (map float_value start_tokens, map float_value end_tokens))"
  by (simp add: parse_silence_log_def parse_lines_eq Let_def)

theorem parse_silence_log_characterised_witness:
  "parse_silence_log (''size=N/A time=00:00:03'' @ [CHR 0x0A]
                       @ ''[silencedetect @ 0x5] silence_start: 1.25'' @ [CHR 0x0A]
                       @ ''[silencedetect @ 0x5] silence_end: 2.5 | silence_duration: 1.25''
                       @ [CHR 0x0A])
     = Inr ([125 / 100], [25 / 10])"
  using parse_silence_log_characterised
          [of "''size=N/A time=00:00:03'' @ [CHR 0x0A]
                 @ ''[silencedetect @ 0x5] silence_start: 1.25'' @ [CHR 0x0A]
                 @ ''[silencedetect @ 0x5] silence_end: 2.5 | silence_duration: 1.25''
                 @ [CHR 0x0A]"]
  by (simp add: parse_silence_log_def splitlines_def append_match_def SILENCE_START_RE_def
       SILENCE_END_RE_def re_match_at_def is_space_def is_number_char_def is_linebreak_def
       py_float_def digits_value_def)

section \<open>Monotonicity of the merge pass\<close>

lemma merge_adjacent_loop_run:
  "merge_adjacent_loop g rest (done @ [cur]) = Inr (done @ merge_run g cur rest)"
proof (induction rest arbitrary: "done" cur)
  case Nil
  then show ?case by simp
next
  case (Cons seg rest)
  obtain start stop where seg: "seg = (start, stop)" by (cases seg)
  obtain ls le where cur: "cur = (ls, le)" by (cases cur)
  show ?case
  proof (cases "start - le \<le> g")
    case True
    have "merge_adjacent_loop g (seg # rest) (done @ [cur])
            = merge_adjacent_loop g rest (done @ [(ls, max le stop)])"
      using True by (simp add: seg cur)
    then show ?thesis using True Cons.IH [of "done" "(ls, max le stop)"]
      by (simp add: seg cur)
  next
    case False
    have "merge_adjacent_loop g (seg # rest) (done @ [cur])
            = merge_adjacent_loop g rest ((done @ [cur]) @ [(start, stop)])"
      using False by (simp add: seg cur)
    then show ?thesis using False Cons.IH [of "done @ [cur]" "(start, stop)"]
      by (simp add: seg cur)
  qed
qed

lemma merge_adjacent_run:
  "merge_adjacent (s # rest) g = Inr (merge_run g s rest)"
  using merge_adjacent_loop_run [of g rest "[]" s] by (simp add: merge_adjacent_def)

lemma merge_run_length_mono:
  "g1 \<le> g2 \<Longrightarrow> snd c1 \<le> snd c2 \<Longrightarrow>
     length (merge_run g2 c2 rest) \<le> length (merge_run g1 c1 rest)"
proof (induction rest arbitrary: c1 c2)
  case Nil
  then show ?case by simp
next
  case (Cons seg rest)
  obtain start stop where seg: "seg = (start, stop)" by (cases seg)
  have a: "length (merge_run g2 (fst c2, max (snd c2) stop) rest)
             \<le> length (merge_run g1 (fst c1, max (snd c1) stop) rest)"
    using Cons.prems by (intro Cons.IH) auto
  have b: "length (merge_run g2 (fst c2, max (snd c2) stop) rest)
             \<le> length (merge_run g1 (start, stop) rest)"
    using Cons.prems by (intro Cons.IH) auto
  have c: "length (merge_run g2 (start, stop) rest) \<le> length (merge_run g1 (start, stop) rest)"
    using Cons.prems by (intro Cons.IH) auto
  show ?case using a b c Cons.prems by (auto simp: seg)
qed

text \<open>
  Claim C4. For two gap thresholds \<open>t1 < t2\<close> and any input sequence, sorted by start or
  not: on a non-empty input both merge passes return, and the pass at \<open>t1\<close> returns at
  least as many intervals as the pass at \<open>t2\<close>; on the empty input both passes raise
  IndexError and there is no count to compare.
\<close>

theorem merge_pass_monotone:
  "t1 < t2 \<Longrightarrow>
     (case (merge_adjacent segments t1, merge_adjacent segments t2) of
        (Inr at_t1, Inr at_t2) \<Rightarrow> segments \<noteq> [] \<and> length at_t2 \<le> length at_t1
      | (Inl e1, Inl e2) \<Rightarrow> segments = [] \<and> e1 = IndexError \<and> e2 = IndexError
      | _ \<Rightarrow> False)"
proof (cases segments)
  case Nil
  then show ?thesis by (simp add: merge_adjacent_def)
next
  case (Cons s rest)
  assume "t1 < t2"
  then have "length (merge_run t2 s rest) \<le> length (merge_run t1 s rest)"
    by (intro merge_run_length_mono) auto
  then show ?thesis by (simp add: Cons merge_adjacent_run)
qed

theorem merge_pass_monotone_witness:
  "merge_adjacent [(0, 1), (105 / 100, 2), (22 / 10, 3), (4, 5)] (6 / 100)
     = Inr [(0, 2), (22 / 10, 3), (4, 5)]
   \<and> merge_adjacent [(0, 1), (105 / 100, 2), (22 / 10, 3), (4, 5)] (3 / 10)
     = Inr [(0, 3), (4, 5)]"
  using merge_pass_monotone [of "6 / 100" "3 / 10" "[(0, 1), (105 / 100, 2), (22 / 10, 3), (4, 5)]"]
  by (simp add: merge_adjacent_def)

section \<open>Scenario B: alternating short and long gaps\<close>

lemma merge_run_pair:
  "s2 - e1 \<le> g \<and> e1 \<le> e2 \<Longrightarrow> \<not> s3 - e2 \<le> g \<Longrightarrow>
     merge_run g (s1, e1) ((s2, e2) # (s3, e3) # rest) = (s1, e2) # merge_run g (s3, e3) rest"
  by simp

lemma merge_run_last_pair:
  "s2 - e1 \<le> g \<and> e1 \<le> e2 \<Longrightarrow> merge_run g (s1, e1) [(s2, e2)] = [(s1, e2)]"
  by simp

lemma hd_MERGE_GAPS_SECONDS: "MERGE_GAPS_SECONDS = (60 / 1000) # tl MERGE_GAPS_SECONDS"
  by (simp add: MERGE_GAPS_SECONDS_def py_range3_def upt_rec)

lemma fit_loop_first:
  "merge_adjacent best gap = Inr merged \<Longrightarrow> int (length merged) \<le> target \<Longrightarrow>
     fit_loop (gap # gaps) best target = Inr merged"
  by simp

lemma fit_sorted_exact:
  "segments \<noteq> [] \<Longrightarrow> sorted (map fst segments) \<Longrightarrow> count (clips cfg) < int (length segments) \<Longrightarrow>
   fit_loop MERGE_GAPS_SECONDS segments (count (clips cfg)) = Inr best \<Longrightarrow>
   int (length best) = count (clips cfg) \<Longrightarrow>
     fit_segments_to_target cfg segments = Inr best"
  by (simp add: fit_segments_to_target_def Let_def sort_key_id_if_sorted)

text \<open>
  Claim C5. Take 12 candidate segments (each with start at most its end) whose 11 gaps
  alternate 40 ms and 500 ms, beginning with 40 ms, and a target count of 6. The fitter
  returns exactly the 6 segments obtained by merging each pair separated by a 40 ms gap:
  segment \<open>k\<close> of the result runs from the start of input segment \<open>2k\<close> to the end of input
  segment \<open>2k + 1\<close>, so no pair separated by 500 ms is merged. This is the result of the
  merge pass at the first threshold of the list, 60 ms, the smallest one that admits a
  40 ms gap.
\<close>

theorem scenario_B_merges_only_short_gaps:
  assumes len: "length segments = 12"
    and target: "count (clips cfg) = 6"
    and wf: "\<forall>i<12. fst (segments ! i) \<le> snd (segments ! i)"
    and gaps: "\<forall>i<11. fst (segments ! Suc i) - snd (segments ! i)
                        = (if even i then 40 / 1000 else 500 / 1000)"
  shows "fit_segments_to_target cfg segments =
           Inr (map (\<lambda>k. (fst (segments ! (2 * k)), snd (segments ! (2 * k + 1)))) [0 ..< 6])
         \<and> merge_adjacent segments (hd MERGE_GAPS_SECONDS) =
           Inr (map (\<lambda>k. (fst (segments ! (2 * k)), snd (segments ! (2 * k + 1)))) [0 ..< 6])
         \<and> hd MERGE_GAPS_SECONDS = 60 / 1000"
proof -
  define a where "a = (\<lambda>i. fst (segments ! i))"
  define b where "b = (\<lambda>i. snd (segments ! i))"
  define result where
    "result = [(a 0, b 1), (a 2, b 3), (a 4, b 5), (a 6, b 7), (a 8, b 9), (a 10, b 11)]"
  have "segments = map ((!) segments) [0 ..< 12]"
    using len map_nth [of segments] by simp
  then have segs: "segments = map (\<lambda>i. (a i, b i)) [0 ..< 12]"
    by (simp add: a_def b_def)
  have upt12: "[0 ..< 12] = [0, 1, 2, 3, 4, 5, 6, 7, 8, 9, 10, 11::nat]"
    by (simp add: upt_rec)
  have upt6: "[0 ..< 6] = [0, 1, 2, 3, 4, 5::nat]"
    by (simp add: upt_rec)
  have short: "a j - b i \<le> 60 / 1000 \<and> b i \<le> b j" if "even i" "i < 11" "j = Suc i" for i j
  proof -
    have "a j - b i = 40 / 1000" using gaps that by (simp add: a_def b_def)
    moreover have "a j \<le> b j" using wf that by (simp add: a_def b_def)
    ultimately show ?thesis by simp
  qed
  have long: "\<not> a j - b i \<le> 60 / 1000" if "odd i" "i < 11" "j = Suc i" for i j
  proof -
    have "a j - b i = 500 / 1000" using gaps that by (simp add: a_def b_def)
    then show ?thesis by simp
  qed
  have s0: "a 1 - b 0 \<le> 60 / 1000 \<and> b 0 \<le> b 1" by (rule short) simp_all
  have s2: "a 3 - b 2 \<le> 60 / 1000 \<and> b 2 \<le> b 3" by (rule short) simp_all
  have s4: "a 5 - b 4 \<le> 60 / 1000 \<and> b 4 \<le> b 5" by (rule short) simp_all
  have s6: "a 7 - b 6 \<le> 60 / 1000 \<and> b 6 \<le> b 7" by (rule short) simp_all
  have s8: "a 9 - b 8 \<le> 60 / 1000 \<and> b 8 \<le> b 9" by (rule short) simp_all
  have s10: "a 11 - b 10 \<le> 60 / 1000 \<and> b 10 \<le> b 11" by (rule short) simp_all
  have l1: "\<not> a 2 - b 1 \<le> 60 / 1000" by (rule long) simp_all
  have l3: "\<not> a 4 - b 3 \<le> 60 / 1000" by (rule long) simp_all
  have l5: "\<not> a 6 - b 5 \<le> 60 / 1000" by (rule long) simp_all
  have l7: "\<not> a 8 - b 7 \<le> 60 / 1000" by (rule long) simp_all
  have l9: "\<not> a 10 - b 9 \<le> 60 / 1000" by (rule long) simp_all
  have run: "merge_run (60 / 1000) (a 0, b 0)
          [(a 1, b 1), (a 2, b 2), (a 3, b 3), (a 4, b 4), (a 5, b 5), (a 6, b 6), (a 7, b 7),
           (a 8, b 8), (a 9, b 9), (a 10, b 10), (a 11, b 11)] = result"
    unfolding result_def
    by (simp only: merge_run_pair [OF s0 l1] merge_run_pair [OF s2 l3] merge_run_pair [OF s4 l5]
          merge_run_pair [OF s6 l7] merge_run_pair [OF s8 l9] merge_run_last_pair [OF s10])
  have "merge_adjacent (map (\<lambda>i. (a i, b i)) [0, 1, 2, 3, 4, 5, 6, 7, 8, 9, 10, 11])
          (60 / 1000) = Inr result"
    by (simp only: list.map merge_adjacent_run run)
  then have m: "merge_adjacent segments (60 / 1000) = Inr result"
    using segs upt12 by simp
  have res: "map (\<lambda>k. (fst (segments ! (2 * k)), snd (segments ! (2 * k + 1)))) [0 ..< 6] = result"
    unfolding upt6 result_def by (simp add: a_def b_def)
  have lenr: "int (length result) = 6" by (simp add: result_def)
  have "fst (segments ! i) \<le> fst (segments ! Suc i)" if "Suc i < length segments" for i
  proof -
    have i: "i < 11" using that len by simp
    have "fst (segments ! Suc i) - snd (segments ! i) = (if even i then 40 / 1000 else 500 / 1000)"
      using gaps i by blast
    moreover have "fst (segments ! i) \<le> snd (segments ! i)" using wf i by simp
    ultimately show ?thesis by (cases "even i") simp_all
  qed
  then have sorted_in: "sorted (map fst segments)"
    by (simp add: sorted_iff_nth_Suc)
  have ne: "segments \<noteq> []" using len by auto
  have loop: "fit_loop MERGE_GAPS_SECONDS segments (count (clips cfg)) = Inr result"
    unfolding target
    by (subst hd_MERGE_GAPS_SECONDS) (rule fit_loop_first [OF m], simp add: lenr)
  have fit: "fit_segments_to_target cfg segments = Inr result"
    by (rule fit_sorted_exact [OF ne sorted_in _ loop]) (simp_all add: len target lenr)
  have h: "hd MERGE_GAPS_SECONDS = 60 / 1000"
    by (subst hd_MERGE_GAPS_SECONDS) simp
  show ?thesis unfolding res h using fit m by simp
qed

theorem scenario_B_merges_only_short_gaps_witness:
  "fit_segments_to_target (example_config 6 (7 / 100)) scenario_B_segments
     = Inr [(0, 51 / 25), (127 / 50, 229 / 50), (127 / 25, 178 / 25),
            (381 / 50, 483 / 50),
            (254 / 25, 61 / 5), (127 / 10, 737 / 50)]"
proof -
  have upt12: "[0 ..< 12] = [0, 1, 2, 3, 4, 5, 6, 7, 8, 9, 10, 11::nat]"
    by (simp add: upt_rec)
  have upt11: "[0 ..< 11] = [0, 1, 2, 3, 4, 5, 6, 7, 8, 9, 10::nat]"
    by (simp add: upt_rec)
  have "\<forall>i\<in>set [0 ..< 12]. fst (scenario_B_segments ! i) \<le> snd (scenario_B_segments ! i)"
    unfolding upt12 by (simp add: scenario_B_segments_def)
  then have wf: "\<forall>i<12. fst (scenario_B_segments ! i) \<le> snd (scenario_B_segments ! i)"
    by simp
  have "\<forall>i\<in>set [0 ..< 11]. fst (scenario_B_segments ! Suc i) - snd (scenario_B_segments ! i)
                        = (if even i then 40 / 1000 else 500 / 1000)"
    unfolding upt11 by (simp add: scenario_B_segments_def)
  then have gaps: "\<forall>i<11. fst (scenario_B_segments ! Suc i) - snd (scenario_B_segments ! i)
                        = (if even i then 40 / 1000 else 500 / 1000)"
    by simp
  have len: "length scenario_B_segments = 12" by (simp add: scenario_B_segments_def)
  have target: "count (clips (example_config 6 (7 / 100))) = 6" by (simp add: example_config_def)
  show ?thesis
    using scenario_B_merges_only_short_gaps [OF len target wf gaps]
    by (simp add: upt_rec scenario_B_segments_def)
qed

section \<open>The fitter coalesces runs of its input\<close>

lemma run_span_single: "run_span [x] = x"
  by (simp add: run_span_def)

lemma coalesces_refl: "coalesces xs xs"
proof -
  have "concat (map (\<lambda>x. [x]) xs) = xs" by (induction xs) auto
  moreover have "map run_span (map (\<lambda>x. [x]) xs) = xs"
    by (induction xs) (auto simp: run_span_single)
  ultimately show ?thesis unfolding coalesces_def
    by (intro exI [of _ "map (\<lambda>x. [x]) xs"]) auto
qed

lemma concat_eq_map_split:
  "concat ps = map f xs \<Longrightarrow> \<exists>qs. concat qs = xs \<and> map (map f) qs = ps"
proof (induction ps arbitrary: xs)
  case Nil
  then show ?case by (intro exI [of _ "[]"]) simp
next
  case (Cons p ps)
  then have "map f xs = p @ concat ps" by simp
  then obtain us vs where uv: "xs = us @ vs" "p = map f us" "concat ps = map f vs"
    by (auto simp: map_eq_append_conv)
  from Cons.IH [OF uv(3)] obtain qs where "concat qs = vs" "map (map f) qs = ps" by blast
  then show ?case using uv by (intro exI [of _ "us # qs"]) simp
qed

lemma Max_snd_spans:
  "q \<noteq> [] \<Longrightarrow> \<forall>r \<in> set q. r \<noteq> [] \<Longrightarrow>
     Max (snd ` set (map run_span q)) = Max (snd ` set (concat q))"
proof (induction q rule: list_nonempty_induct)
  case (single r)
  then show ?case by (simp add: run_span_def)
next
  case (cons r q)
  have ne: "concat q \<noteq> []" using cons.hyps cons.prems by (cases q) auto
  have "Max (snd ` set (map run_span (r # q)))
          = max (snd (run_span r)) (Max (snd ` set (map run_span q)))"
    using cons.hyps by (simp add: Max_insert)
  also have "\<dots> = max (Max (snd ` set r)) (Max (snd ` set (concat q)))"
    using cons by (simp add: run_span_def)
  also have "\<dots> = Max (snd ` set r \<union> snd ` set (concat q))"
    using cons.prems ne by (subst Max.union) auto
  finally show ?case by (simp add: image_Un)
qed

lemma run_span_spans:
  assumes "q \<noteq> []" "\<forall>r \<in> set q. r \<noteq> []"
  shows "run_span (map run_span q) = run_span (concat q)"
proof -
  obtain r q' where q: "q = r # q'" using assms(1) by (cases q) auto
  then have r: "r \<noteq> []" using assms(2) by simp
  have "fst (hd (map run_span q)) = fst (hd (concat q))"
    using r by (simp add: q run_span_def)
  then show ?thesis
    using Max_snd_spans [OF assms] by (simp add: run_span_def)
qed

lemma concat_map_concat: "concat (map concat qs) = concat (concat qs)"
  by (induction qs) auto

lemma coalesces_trans:
  assumes "coalesces xs ys" "coalesces ys zs"
  shows "coalesces xs zs"
proof -
  from assms(1) obtain rs where rs: "concat rs = xs" "\<forall>r \<in> set rs. r \<noteq> []" "ys = map run_span rs"
    unfolding coalesces_def by blast
  from assms(2) obtain ps where ps: "concat ps = ys" "\<forall>p \<in> set ps. p \<noteq> []" "zs = map run_span ps"
    unfolding coalesces_def by blast
  from ps(1) rs(3) have "concat ps = map run_span rs" by simp
  then obtain qs where qs: "concat qs = rs" "map (map run_span) qs = ps"
    by (blast dest: concat_eq_map_split)
  have qne: "\<forall>q \<in> set qs. q \<noteq> []"
  proof
    fix q assume "q \<in> set qs"
    then have "map run_span q \<in> set ps" using qs(2) by auto
    then show "q \<noteq> []" using ps(2) by auto
  qed
  have inner: "\<forall>q \<in> set qs. \<forall>r \<in> set q. r \<noteq> []"
    using rs(2) qs(1) by auto
  have c1: "concat (map concat qs) = xs"
    using rs(1) qs(1) by (simp add: concat_map_concat)
  have c2: "\<forall>r \<in> set (map concat qs). r \<noteq> []"
  proof
    fix r assume "r \<in> set (map concat qs)"
    then obtain q where q: "q \<in> set qs" "r = concat q" by auto
    have "q \<noteq> []" using qne q(1) by blast
    then obtain r0 q' where q': "q = r0 # q'" by (cases q) auto
    have "r0 \<noteq> []" using inner q(1) q' by auto
    then show "r \<noteq> []" using q(2) q' by simp
  qed
  have "map run_span ps = map run_span (map concat qs)"
  proof -
    have "map run_span ps = map (\<lambda>q. run_span (map run_span q)) qs"
      using qs(2) by auto
    also have "\<dots> = map (\<lambda>q. run_span (concat q)) qs"
      using qne inner by (intro map_cong) (auto simp: run_span_spans)
    finally show ?thesis by simp
  qed
  then show ?thesis unfolding coalesces_def
    using c1 c2 ps(3) by (intro exI [of _ "map concat qs"]) simp
qed

lemma merge_run_coalesces:
  "\<exists>runs. concat runs = cur # rest \<and> (\<forall>r \<in> set runs. r \<noteq> [])
          \<and> merge_run g cur rest = map run_span runs"
proof (induction rest arbitrary: cur)
  case Nil
  show ?case by (intro exI [of _ "[[cur]]"]) (simp add: run_span_single)
next
  case (Cons seg rest)
  obtain start stop where seg: "seg = (start, stop)" by (cases seg)
  show ?case
  proof (cases "start - snd cur \<le> g")
    case True
    define cur' where "cur' = (fst cur, max (snd cur) stop)"
    from Cons.IH [of cur'] obtain runs where runs:
      "concat runs = cur' # rest" "\<forall>r \<in> set runs. r \<noteq> []"
      "merge_run g cur' rest = map run_span runs" by blast
    from runs(1) obtain r0 runs' where r: "runs = r0 # runs'" by (cases runs) auto
    then have "r0 \<noteq> []" using runs(2) by simp
    then obtain tl0 where r0: "r0 = cur' # tl0" using runs(1) r by (cases r0) auto
    have rest: "rest = tl0 @ concat runs'" using runs(1) r r0 by simp
    define new0 where "new0 = cur # seg # tl0"
    have span: "run_span new0 = run_span r0"
    proof -
      have "Max (snd ` set new0) = Max (insert (snd cur) (insert stop (snd ` set tl0)))"
        by (simp add: new0_def seg)
      also have "\<dots> = Max (insert (max (snd cur) stop) (snd ` set tl0))"
        by (cases "tl0 = []") (simp_all add: Max_insert max.assoc)
      also have "\<dots> = Max (snd ` set r0)" by (simp add: r0 cur'_def)
      finally show ?thesis by (simp add: run_span_def new0_def r0 cur'_def)
    qed
    have "concat (new0 # runs') = cur # seg # rest" by (simp add: new0_def rest)
    moreover have "\<forall>r \<in> set (new0 # runs'). r \<noteq> []" using runs(2) r by (simp add: new0_def)
    moreover have "merge_run g cur (seg # rest) = map run_span (new0 # runs')"
      using True runs(3) r span by (simp add: seg cur'_def)
    ultimately show ?thesis by blast
  next
    case False
    from Cons.IH [of seg] obtain runs where runs:
      "concat runs = seg # rest" "\<forall>r \<in> set runs. r \<noteq> []"
      "merge_run g seg rest = map run_span runs" by blast
    have "concat ([cur] # runs) = cur # seg # rest" using runs(1) by simp
    moreover have "\<forall>r \<in> set ([cur] # runs). r \<noteq> []" using runs(2) by simp
    moreover have "merge_run g cur (seg # rest) = map run_span ([cur] # runs)"
      using False runs(3) by (simp add: seg run_span_single)
    ultimately show ?thesis by blast
  qed
qed

lemma merge_adjacent_coalesces:
  assumes "segments \<noteq> []"
  shows "\<exists>merged. merge_adjacent segments g = Inr merged \<and> merged \<noteq> []
           \<and> coalesces segments merged"
proof -
  obtain s rest where sr: "segments = s # rest" using assms by (cases segments) auto
  from merge_run_coalesces [of s rest g] obtain runs where runs:
    "concat runs = s # rest" "\<forall>r \<in> set runs. r \<noteq> []"
    "merge_run g s rest = map run_span runs" by blast
  have "runs \<noteq> []" using runs(1) by auto
  then have "merge_run g s rest \<noteq> []" using runs(3) by simp
  moreover have "coalesces segments (merge_run g s rest)"
    unfolding coalesces_def using runs sr by blast
  ultimately show ?thesis by (simp add: sr merge_adjacent_run)
qed

lemma fit_loop_coalesces:
  "best \<noteq> [] \<Longrightarrow>
     \<exists>fitted. fit_loop gaps best target = Inr fitted \<and> fitted \<noteq> [] \<and> coalesces best fitted"
proof (induction gaps arbitrary: best)
  case Nil
  then show ?case by (simp add: coalesces_refl)
next
  case (Cons gap gaps)
  from merge_adjacent_coalesces [OF Cons.prems, of gap] obtain merged where m:
    "merge_adjacent best gap = Inr merged" "merged \<noteq> []" "coalesces best merged" by blast
  show ?case
  proof (cases "int (length merged) \<le> target")
    case True
    then show ?thesis using m by simp
  next
    case False
    from Cons.IH [OF m(2)] obtain fitted where f:
      "fit_loop gaps merged target = Inr fitted" "fitted \<noteq> []" "coalesces merged fitted" by blast
    then show ?thesis using False m coalesces_trans [OF m(3) f(3)] by simp
  qed
qed

lemma ordered_imp_before:
  assumes "sorted_by_start xs" "non_overlapping xs"
  shows "sorted_wrt before xs"
proof -
  have "before (xs ! i) (xs ! j)" if "i < j" "j < length xs" for i j
  proof -
    have s: "sorted (map fst xs)" using assms(1) by (simp add: sorted_by_start_def)
    have a: "fst (xs ! i) \<le> fst (xs ! j)"
      using sorted_nth_mono [OF s, of i j] that by simp
    have "snd (xs ! i) \<le> fst (xs ! Suc i)"
      using assms(2) that by (simp add: non_overlapping_def)
    also have "\<dots> \<le> fst (xs ! j)"
      using sorted_nth_mono [OF s, of "Suc i" j] that by simp
    finally show ?thesis using a by (simp add: before_def)
  qed
  then show ?thesis by (simp add: sorted_wrt_iff_nth_less)
qed

lemma before_imp_ordered:
  assumes "sorted_wrt before ys"
  shows "sorted_by_start ys \<and> non_overlapping ys"
proof -
  have b: "before (ys ! i) (ys ! j)" if "i < j" "j < length ys" for i j
    using assms that by (simp add: sorted_wrt_iff_nth_less)
  have "sorted (map fst ys)"
    using b by (auto simp: sorted_iff_nth_Suc before_def)
  moreover have "non_overlapping ys"
    using b by (auto simp: non_overlapping_def before_def)
  ultimately show ?thesis by (simp add: sorted_by_start_def)
qed

lemma before_spans:
  "sorted_wrt before (concat runs) \<Longrightarrow> \<forall>r \<in> set runs. r \<noteq> [] \<Longrightarrow>
     sorted_wrt before (map run_span runs)"
proof (induction runs)
  case Nil
  then show ?case by simp
next
  case (Cons r runs)
  have r: "r \<noteq> []" using Cons.prems(2) by simp
  have cross: "\<forall>x \<in> set r. \<forall>y \<in> set (concat runs). before x y"
    using Cons.prems(1) by (simp add: sorted_wrt_append)
  have "before (run_span r) (run_span r')" if "r' \<in> set runs" for r'
  proof -
    have r': "r' \<noteq> []" using that Cons.prems(2) by simp
    then have "hd r' \<in> set r'" by simp
    then have h: "hd r' \<in> set (concat runs)" using that by auto
    have "fst (hd r) \<le> fst (hd r')" using cross r h by (auto simp: before_def)
    moreover have "Max (snd ` set r) \<le> fst (hd r')"
      using cross r h by (subst Max_le_iff) (auto simp: before_def)
    ultimately show ?thesis by (simp add: before_def run_span_def)
  qed
  moreover have "sorted_wrt before (map run_span runs)"
    using Cons by (simp add: sorted_wrt_append)
  ultimately show ?case by auto
qed

lemma interval_union_sorted:
  assumes "sorted (map fst r)" "r \<noteq> []"
  shows "interval_union r = run_span r"
proof -
  obtain x r' where r: "r = x # r'" using assms(2) by (cases r) auto
  have "Min (fst ` set r) = fst x"
    using assms(1) by (intro Min_eqI) (auto simp: r)
  then show ?thesis by (simp add: interval_union_def run_span_def r)
qed

lemma sorted_runs:
  "sorted (map fst (concat runs @ rest)) \<Longrightarrow> r \<in> set runs \<Longrightarrow> sorted (map fst r)"
  by (induction runs) (auto simp: sorted_append)

lemma coalesces_take:
  assumes "coalesces xs ys"
  shows "\<exists>runs rest. concat runs @ rest = xs \<and> (\<forall>r \<in> set runs. r \<noteq> [])
           \<and> take n ys = map run_span runs"
proof -
  from assms obtain runs where runs:
    "concat runs = xs" "\<forall>r \<in> set runs. r \<noteq> []" "ys = map run_span runs"
    unfolding coalesces_def by blast
  have "concat (take n runs) @ concat (drop n runs) = xs"
    using runs(1) by (metis append_take_drop_id concat_append)
  moreover have "\<forall>r \<in> set (take n runs). r \<noteq> []"
    using runs(2) by (auto dest: in_set_takeD)
  moreover have "take n ys = map run_span (take n runs)"
    using runs(3) by (simp add: take_map)
  ultimately show ?thesis by blast
qed

lemma fitted_of_runs:
  assumes ord: "sorted_by_start xs" "non_overlapping xs"
    and runs: "concat runs @ rest = xs" "\<forall>r \<in> set runs. r \<noteq> []"
  shows "map run_span runs = map interval_union runs
         \<and> sorted_by_start (map run_span runs) \<and> non_overlapping (map run_span runs)"
proof -
  have s: "sorted (map fst (concat runs @ rest))"
    using ord(1) runs(1) by (simp add: sorted_by_start_def)
  have eq: "map run_span runs = map interval_union runs"
    using runs(2) sorted_runs [OF s] by (intro map_cong) (auto simp: interval_union_sorted)
  have "sorted_wrt before (concat runs @ rest)"
    using ordered_imp_before [OF ord] runs(1) by simp
  then have "sorted_wrt before (concat runs)" by (simp add: sorted_wrt_append)
  then have "sorted_wrt before (map run_span runs)" using runs(2) by (rule before_spans)
  then show ?thesis using eq before_imp_ordered by blast
qed

lemma non_overlapping_simps:
  "non_overlapping []" "non_overlapping [x]"
  "non_overlapping (x # y # zs) \<longleftrightarrow> snd x \<le> fst y \<and> non_overlapping (y # zs)"
proof -
  show "non_overlapping []" "non_overlapping [x]" by (simp_all add: non_overlapping_def)
  show "non_overlapping (x # y # zs) \<longleftrightarrow> snd x \<le> fst y \<and> non_overlapping (y # zs)"
  proof
    assume a: "non_overlapping (x # y # zs)"
    have "snd x \<le> fst y" using a [unfolded non_overlapping_def, rule_format, of 0] by simp
    moreover have "snd ((y # zs) ! i) \<le> fst ((y # zs) ! Suc i)" if "Suc i < length (y # zs)" for i
      using a [unfolded non_overlapping_def, rule_format, of "Suc i"] that by simp
    ultimately show "snd x \<le> fst y \<and> non_overlapping (y # zs)"
      by (simp add: non_overlapping_def)
  next
    assume a: "snd x \<le> fst y \<and> non_overlapping (y # zs)"
    show "non_overlapping (x # y # zs)"
      unfolding non_overlapping_def
    proof (intro allI impI)
      fix i assume "Suc i < length (x # y # zs)"
      then show "snd ((x # y # zs) ! i) \<le> fst ((x # y # zs) ! Suc i)"
        using a by (cases i) (auto simp: non_overlapping_def)
    qed
  qed
qed

text \<open>
  Claim C1, as stated, on three sorted, non-overlapping segments separated by 10 ms
  gaps with a target count of 2: the first merge pass (60 ms) merges all three into
  one interval, which is below the target, and the fitter raises its "unable to
  reduce" RuntimeError instead of returning 2 intervals.
\<close>

theorem fit_overshoot_counterexample:
  "sorted_by_start [(0, 1), (101 / 100, 2), (101 / 50, 3)]
   \<and> non_overlapping [(0, 1), (101 / 100, 2), (101 / 50, 3)]
   \<and> fit_segments_to_target (example_config 2 (7 / 100)) [(0, 1), (101 / 100, 2), (101 / 50, 3)]
       = Inl (RuntimeError (UnableToReduce 2 1))"
proof -
  have m: "merge_adjacent [(0, 1), (101 / 100, 2), (101 / 50, 3)] (60 / 1000) = Inr [(0, 3)]"
    by (simp add: merge_adjacent_run)
  have loop: "fit_loop MERGE_GAPS_SECONDS [(0, 1), (101 / 100, 2), (101 / 50, 3)] 2 = Inr [(0, 3)]"
    by (subst hd_MERGE_GAPS_SECONDS) (rule fit_loop_first [OF m], simp)
  show ?thesis
    by (simp add: fit_segments_to_target_def Let_def example_config_def loop
          sorted_by_start_def non_overlapping_simps)
qed

lemma overshoots_Cons:
  "merge_adjacent segments gap = Inr merged \<Longrightarrow>
     overshoots n (gap # gaps) segments \<longleftrightarrow>
       n < int (length segments)
       \<and> (if n < int (length merged) then overshoots n gaps merged else int (length merged) < n)"
  by (simp add: overshoots_def)

lemma fit_loop_overshoots:
  "best \<noteq> [] \<Longrightarrow> n < int (length best) \<Longrightarrow> fit_loop gaps best n = Inr fitted \<Longrightarrow>
     int (length fitted) < n \<longleftrightarrow> overshoots n gaps best"
proof (induction gaps arbitrary: best)
  case Nil
  then show ?case by (simp add: overshoots_def)
next
  case (Cons gap gaps)
  from merge_adjacent_coalesces [OF Cons.prems(1), of gap] obtain merged where m:
    "merge_adjacent best gap = Inr merged" "merged \<noteq> []" by blast
  show ?case
  proof (cases "int (length merged) \<le> n")
    case True
    then have "fitted = merged" using Cons.prems(3) m(1) by simp
    then show ?thesis using True Cons.prems(2) by (simp add: overshoots_Cons [OF m(1)])
  next
    case False
    then have more: "n < int (length merged)" by simp
    have "fit_loop gaps merged n = Inr fitted" using Cons.prems(3) m(1) False by simp
    from Cons.IH [OF m(2) more this]
    show ?thesis using more Cons.prems(2) by (simp add: overshoots_Cons [OF m(1)])
  qed
qed

lemma fit_loop_first_pass:
  "best \<noteq> [] \<Longrightarrow> fit_loop gaps best n = Inr fitted \<Longrightarrow>
   dropWhile (\<lambda>merged. n < int (length merged)) (merge_passes gaps best) = first # later \<Longrightarrow>
     fitted = first"
proof (induction gaps arbitrary: best)
  case Nil
  then show ?case by simp
next
  case (Cons gap gaps)
  from merge_adjacent_coalesces [OF Cons.prems(1), of gap] obtain merged where m:
    "merge_adjacent best gap = Inr merged" "merged \<noteq> []" by blast
  show ?case
  proof (cases "int (length merged) \<le> n")
    case True
    then show ?thesis using Cons.prems(2,3) m(1) by simp
  next
    case False
    then have "fit_loop gaps merged n = Inr fitted"
      and "dropWhile (\<lambda>merged. n < int (length merged)) (merge_passes gaps merged) = first # later"
      using Cons.prems(2,3) m(1) by simp_all
    then show ?thesis using Cons.IH [OF m(2)] by blast
  qed
qed

text \<open>
  Claim C1, amended. For a start-sorted, non-overlapping input of \<open>M\<close> segments and a
  target count \<open>N\<close> with \<open>1 \<le> N \<le> M\<close>: the fitter fails exactly when it overshoots, that
  is when \<open>M > N\<close> and the first merge pass whose result has at most \<open>N\<close> segments has
  fewer than \<open>N\<close>, and then it raises the "unable to reduce" RuntimeError carrying the
  count of that pass. In every other case it returns exactly \<open>N\<close> intervals, each the
  union of one of \<open>N\<close> consecutive non-empty runs that make up a prefix of the input,
  and the returned sequence is sorted by start and non-overlapping. When \<open>M = N\<close> it
  returns the input unchanged.
\<close>

theorem fit_returns_target_count_unless_overshoot:
  assumes ord: "sorted_by_start segments" "non_overlapping segments"
    and target: "1 \<le> count (clips cfg)" "count (clips cfg) \<le> int (length segments)"
  shows "(overshoots (count (clips cfg)) MERGE_GAPS_SECONDS segments \<longrightarrow>
            (\<exists>first later.
               dropWhile (\<lambda>merged. count (clips cfg) < int (length merged))
                 (merge_passes MERGE_GAPS_SECONDS segments) = first # later
               \<and> 0 < length first \<and> int (length first) < count (clips cfg)
               \<and> fit_segments_to_target cfg segments
                   = Inl (RuntimeError (UnableToReduce (count (clips cfg)) (length first)))))
         \<and> (\<not> overshoots (count (clips cfg)) MERGE_GAPS_SECONDS segments \<longrightarrow>
            (\<exists>fitted runs rest.
               fit_segments_to_target cfg segments = Inr fitted
               \<and> int (length fitted) = count (clips cfg)
               \<and> concat runs @ rest = segments
               \<and> (\<forall>r \<in> set runs. r \<noteq> [])
               \<and> fitted = map interval_union runs
               \<and> sorted_by_start fitted \<and> non_overlapping fitted))
         \<and> (int (length segments) = count (clips cfg) \<longrightarrow>
              fit_segments_to_target cfg segments = Inr segments)"
proof -
  define n where "n = count (clips cfg)"
  define over where "over = overshoots n MERGE_GAPS_SECONDS segments"
  have ne: "segments \<noteq> []" using target by auto
  have srt: "sort_key fst segments = segments"
    using ord(1) by (simp add: sorted_by_start_def sort_key_id_if_sorted)
  have same: "fit_segments_to_target cfg segments = Inr segments" if "int (length segments) = n"
    using ne that by (simp add: fit_segments_to_target_def Let_def srt n_def)
  have good: "\<exists>fitted runs rest.
               fit_segments_to_target cfg segments = Inr fitted
               \<and> int (length fitted) = n
               \<and> concat runs @ rest = segments
               \<and> (\<forall>r \<in> set runs. r \<noteq> [])
               \<and> fitted = map interval_union runs
               \<and> sorted_by_start fitted \<and> non_overlapping fitted"
    if f: "fit_segments_to_target cfg segments = Inr fitted" "int (length fitted) = n"
      and r: "concat runs @ rest = segments" "\<forall>r \<in> set runs. r \<noteq> []" "fitted = map run_span runs"
    for fitted runs rest
  proof -
    from fitted_of_runs [OF ord r(1) r(2)]
    have "fitted = map interval_union runs" "sorted_by_start fitted" "non_overlapping fitted"
      using r(3) by simp_all
    then show ?thesis using f r(1) r(2) by blast
  qed
  have main: "(over \<longrightarrow>
            (\<exists>first later.
               dropWhile (\<lambda>merged. n < int (length merged))
                 (merge_passes MERGE_GAPS_SECONDS segments) = first # later
               \<and> 0 < length first \<and> int (length first) < n
               \<and> fit_segments_to_target cfg segments
                   = Inl (RuntimeError (UnableToReduce n (length first)))))
         \<and> (\<not> over \<longrightarrow>
            (\<exists>fitted runs rest.
               fit_segments_to_target cfg segments = Inr fitted
               \<and> int (length fitted) = n
               \<and> concat runs @ rest = segments
               \<and> (\<forall>r \<in> set runs. r \<noteq> [])
               \<and> fitted = map interval_union runs
               \<and> sorted_by_start fitted \<and> non_overlapping fitted))"
  proof (cases "int (length segments) = n")
    case True
    have no: "\<not> over" using True by (simp add: over_def overshoots_def)
    from coalesces_take [OF coalesces_refl, of segments "length segments"]
    obtain runs rest where "concat runs @ rest = segments" "\<forall>r \<in> set runs. r \<noteq> []"
      "segments = map run_span runs" by auto
    then show ?thesis using no good [OF same [OF True] True] by blast
  next
    case False
    then have more: "n < int (length segments)" using target by (simp add: n_def)
    from fit_loop_coalesces [OF ne, of MERGE_GAPS_SECONDS n] obtain best where best:
      "fit_loop MERGE_GAPS_SECONDS segments n = Inr best" "best \<noteq> []" "coalesces segments best"
      by blast
    have ov: "int (length best) < n \<longleftrightarrow> over"
      unfolding over_def by (rule fit_loop_overshoots [OF ne more best(1)])
    have unfold: "fit_segments_to_target cfg segments =
                    (let best' = (if int (length best) > n then py_slice_to best n else best)
                     in if int (length best') < n
                        then Inl (RuntimeError (UnableToReduce n (length best')))
                        else Inr best')"
      using ne more best(1) by (simp add: fit_segments_to_target_def Let_def srt n_def)
    consider (long) "n < int (length best)" | (exact) "int (length best) = n"
      | (short) "int (length best) < n" by linarith
    then show ?thesis
    proof cases
      case long
      have n1: "1 \<le> n" using target by (simp add: n_def)
      have sl: "py_slice_to best n = take (nat n) best" using n1 by (simp add: py_slice_to_def)
      have len: "int (length (take (nat n) best)) = n" using long n1 by simp
      have fit: "fit_segments_to_target cfg segments = Inr (take (nat n) best)"
        using long len by (simp add: unfold sl Let_def)
      from coalesces_take [OF best(3), of "nat n"]
      obtain runs rest where "concat runs @ rest = segments" "\<forall>r \<in> set runs. r \<noteq> []"
        "take (nat n) best = map run_span runs" by blast
      then show ?thesis using long ov good [OF fit len] by auto
    next
      case exact
      have fit: "fit_segments_to_target cfg segments = Inr best"
        using exact by (simp add: unfold Let_def)
      from coalesces_take [OF best(3), of "length best"]
      obtain runs rest where "concat runs @ rest = segments" "\<forall>r \<in> set runs. r \<noteq> []"
        "best = map run_span runs" by auto
      then show ?thesis using exact ov good [OF fit exact] by auto
    next
      case short
      have fails: "fit_segments_to_target cfg segments
                     = Inl (RuntimeError (UnableToReduce n (length best)))"
        using short by (simp add: unfold Let_def)
      have over using short ov by simp
      then obtain first later where dw:
        "dropWhile (\<lambda>merged. n < int (length merged))
           (merge_passes MERGE_GAPS_SECONDS segments) = first # later"
        unfolding over_def overshoots_def by (auto split: list.splits)
      have "best = first" by (rule fit_loop_first_pass [OF ne best(1) dw])
      moreover have "0 < length best" using best(2) by simp
      ultimately show ?thesis using short ov fails dw by blast
    qed
  qed
  show ?thesis using main same unfolding over_def n_def by blast
qed

theorem fit_returns_target_count_unless_overshoot_witness:
  "\<not> overshoots 3 MERGE_GAPS_SECONDS [(0, 1), (21 / 20, 2), (11 / 5, 3), (4, 5)]
   \<and> fit_segments_to_target (example_config 3 (7 / 100)) [(0, 1), (21 / 20, 2), (11 / 5, 3), (4, 5)]
     = Inr [(0, 2), (11 / 5, 3), (4, 5)]
   \<and> overshoots 2 MERGE_GAPS_SECONDS [(0, 1), (101 / 100, 2), (101 / 50, 3)]
   \<and> fit_segments_to_target (example_config 2 (7 / 100)) [(0, 1), (101 / 100, 2), (101 / 50, 3)]
     = Inl (RuntimeError (UnableToReduce 2 1))
   \<and> fit_segments_to_target (example_config 2 (7 / 100)) [(0, 1), (21 / 20, 2)]
     = Inr [(0, 1), (21 / 20, 2)]"
proof -
  have m3: "merge_adjacent [(0, 1), (21 / 20, 2), (11 / 5, 3), (4, 5)] (60 / 1000)
             = Inr [(0, 2), (11 / 5, 3), (4, 5)]"
    by (simp add: merge_adjacent_run)
  have no: "\<not> overshoots 3 MERGE_GAPS_SECONDS [(0, 1), (21 / 20, 2), (11 / 5, 3), (4, 5)]"
    by (subst hd_MERGE_GAPS_SECONDS, subst overshoots_Cons [OF m3]) simp
  have a3: "sorted_by_start [(0, 1), (21 / 20, 2), (11 / 5, 3), (4 :: real, 5 :: real)]"
    by (simp add: sorted_by_start_def)
  have b3: "non_overlapping [(0, 1), (21 / 20, 2), (11 / 5, 3), (4, 5)]"
    by (simp add: non_overlapping_simps)
  have c3: "1 \<le> count (clips (example_config 3 (7 / 100)))"
    "count (clips (example_config 3 (7 / 100)))
       \<le> int (length [(0, 1), (21 / 20, 2), (11 / 5, 3), (4 :: real, 5 :: real)])"
    by (simp_all add: example_config_def)
  have loop3: "fit_loop MERGE_GAPS_SECONDS [(0, 1), (21 / 20, 2), (11 / 5, 3), (4, 5)] 3
                = Inr [(0, 2), (11 / 5, 3), (4, 5)]"
    by (subst hd_MERGE_GAPS_SECONDS) (rule fit_loop_first [OF m3], simp)
  have e3: "fit_segments_to_target (example_config 3 (7 / 100))
              [(0, 1), (21 / 20, 2), (11 / 5, 3), (4, 5)] = Inr [(0, 2), (11 / 5, 3), (4, 5)]"
    using fit_returns_target_count_unless_overshoot [OF a3 b3 c3] no
    by (simp add: fit_segments_to_target_def Let_def example_config_def loop3)
  have m2: "merge_adjacent [(0, 1), (101 / 100, 2), (101 / 50, 3)] (60 / 1000) = Inr [(0, 3)]"
    by (simp add: merge_adjacent_run)
  have over: "overshoots 2 MERGE_GAPS_SECONDS [(0, 1), (101 / 100, 2), (101 / 50, 3)]"
    by (subst hd_MERGE_GAPS_SECONDS, subst overshoots_Cons [OF m2]) simp
  have a2: "sorted_by_start [(0, 1), (101 / 100, 2), (101 / 50 :: real, 3 :: real)]"
    by (simp add: sorted_by_start_def)
  have b2: "non_overlapping [(0, 1), (101 / 100, 2), (101 / 50, 3)]"
    by (simp add: non_overlapping_simps)
  have c2: "1 \<le> count (clips (example_config 2 (7 / 100)))"
    "count (clips (example_config 2 (7 / 100)))
       \<le> int (length [(0, 1), (101 / 100, 2), (101 / 50 :: real, 3 :: real)])"
    by (simp_all add: example_config_def)
  have loop2: "fit_loop MERGE_GAPS_SECONDS [(0, 1), (101 / 100, 2), (101 / 50, 3)] 2 = Inr [(0, 3)]"
    by (subst hd_MERGE_GAPS_SECONDS) (rule fit_loop_first [OF m2], simp)
  have e2: "fit_segments_to_target (example_config 2 (7 / 100))
              [(0, 1), (101 / 100, 2), (101 / 50, 3)] = Inl (RuntimeError (UnableToReduce 2 1))"
    using fit_returns_target_count_unless_overshoot [OF a2 b2 c2] over
    by (simp add: fit_segments_to_target_def Let_def example_config_def loop2)
  have a1: "sorted_by_start [(0, 1), (21 / 20 :: real, 2 :: real)]"
    by (simp add: sorted_by_start_def)
  have b1: "non_overlapping [(0, 1), (21 / 20, 2)]"
    by (simp add: non_overlapping_simps)
  have c1: "1 \<le> count (clips (example_config 2 (7 / 100)))"
    "count (clips (example_config 2 (7 / 100))) \<le> int (length [(0, 1), (21 / 20 :: real, 2 :: real)])"
    by (simp_all add: example_config_def)
  have e1: "fit_segments_to_target (example_config 2 (7 / 100)) [(0, 1), (21 / 20, 2)]
              = Inr [(0, 1), (21 / 20, 2)]"
    using fit_returns_target_count_unless_overshoot [OF a1 b1 c1]
    by (simp add: example_config_def)
  show ?thesis using no e3 over e2 e1 by simp
qed

section \<open>Ordering of the paired silences\<close>

lemma pair_silences_loop_ordered:
  assumes "sorted (map snd evs)"
    and "successively (\<lambda>a b. fst a = ''start'' \<or> fst b = ''start'') evs"
    and "sorted_wrt before silences"
    and "\<forall>x \<in> set silences. \<forall>e \<in> set evs. fst x \<le> snd e \<and> snd x \<le> snd e"
    and "\<forall>s. cur = Some s \<longrightarrow>
           (\<forall>x \<in> set silences. fst x \<le> s \<and> snd x \<le> s) \<and> (\<forall>e \<in> set evs. s \<le> snd e)"
    and "cur = None \<longrightarrow>
           (\<forall>e \<in> set (take 1 evs). fst e \<noteq> ''start'' \<longrightarrow> silences = [] \<and> 0 \<le> snd e)"
  shows "case pair_silences_loop evs silences cur of
           (sil, c) \<Rightarrow> sorted_wrt before sil
                       \<and> (\<forall>s. c = Some s \<longrightarrow> (\<forall>x \<in> set sil. fst x \<le> s \<and> snd x \<le> s))"
  using assms
proof (induction evs arbitrary: silences cur)
  case Nil
  then show ?case by simp
next
  case (Cons ev rest)
  obtain kind t where ev: "ev = (kind, t)" by (cases ev)
  have srt: "sorted (map snd rest)" and le: "\<forall>e \<in> set rest. t \<le> snd e"
    using Cons.prems(1) by (simp_all add: ev)
  have suc: "successively (\<lambda>a b. fst a = ''start'' \<or> fst b = ''start'') rest"
    and nxt: "rest \<noteq> [] \<Longrightarrow> kind = ''start'' \<or> fst (hd rest) = ''start''"
    using Cons.prems(2) by (auto simp: successively_Cons ev)
  have sub: "\<forall>x \<in> set silences. \<forall>e \<in> set rest. fst x \<le> snd e \<and> snd x \<le> snd e"
    using Cons.prems(4) by simp
  have here: "\<forall>x \<in> set silences. fst x \<le> t \<and> snd x \<le> t"
    using Cons.prems(4) by (simp add: ev)
  have nxt_start: "\<forall>e \<in> set (take 1 rest). fst e \<noteq> ''start'' \<longrightarrow> P e" if "kind \<noteq> ''start''" for P
    using nxt that by (cases rest) auto
  show ?case
  proof (cases "kind = ''start''")
    case True
    show ?thesis
    proof (cases cur)
      case None
      have "case pair_silences_loop rest silences (Some t) of
              (sil, c) \<Rightarrow> sorted_wrt before sil
                          \<and> (\<forall>s. c = Some s \<longrightarrow> (\<forall>x \<in> set sil. fst x \<le> s \<and> snd x \<le> s))"
        using srt suc Cons.prems(3) sub here le by (intro Cons.IH) auto
      then show ?thesis using True None by (simp add: ev)
    next
      case (Some s)
      have "case pair_silences_loop rest silences (Some s) of
              (sil, c) \<Rightarrow> sorted_wrt before sil
                          \<and> (\<forall>s. c = Some s \<longrightarrow> (\<forall>x \<in> set sil. fst x \<le> s \<and> snd x \<le> s))"
        using srt suc Cons.prems(3) sub Cons.prems(5) Some by (intro Cons.IH) auto
      then show ?thesis using True Some by (simp add: ev)
    qed
  next
    case False
    show ?thesis
    proof (cases cur)
      case None
      have first: "silences = []" "0 \<le> t"
        using Cons.prems(6) None False by (simp_all add: ev)
      have "case pair_silences_loop rest (silences @ [(0, t)]) None of
              (sil, c) \<Rightarrow> sorted_wrt before sil
                          \<and> (\<forall>s. c = Some s \<longrightarrow> (\<forall>x \<in> set sil. fst x \<le> s \<and> snd x \<le> s))"
      proof (intro Cons.IH srt suc)
        show "sorted_wrt before (silences @ [(0, t)])" using first by simp
        show "\<forall>x \<in> set (silences @ [(0, t)]). \<forall>e \<in> set rest. fst x \<le> snd e \<and> snd x \<le> snd e"
          using first le by fastforce
        show "\<forall>s. None = Some s \<longrightarrow>
                (\<forall>x \<in> set (silences @ [(0, t)]). fst x \<le> s \<and> snd x \<le> s)
                \<and> (\<forall>e \<in> set rest. s \<le> snd e)" by simp
        show "None = None \<longrightarrow>
                (\<forall>e \<in> set (take 1 rest). fst e \<noteq> ''start''
                   \<longrightarrow> silences @ [(0, t)] = [] \<and> 0 \<le> snd e)"
          using nxt_start [OF False] by blast
      qed
      then show ?thesis using False None by (simp add: ev)
    next
      case (Some s)
      have cs: "\<forall>x \<in> set silences. fst x \<le> s \<and> snd x \<le> s" "\<forall>e \<in> set rest. s \<le> snd e"
        using Cons.prems(5) Some by simp_all
      have "case pair_silences_loop rest (silences @ [(s, t)]) None of
              (sil, c) \<Rightarrow> sorted_wrt before sil
                          \<and> (\<forall>s. c = Some s \<longrightarrow> (\<forall>x \<in> set sil. fst x \<le> s \<and> snd x \<le> s))"
      proof (intro Cons.IH srt suc)
        have "\<forall>x \<in> set silences. before x (s, t)"
          using cs(1) by (simp add: before_def)
        then show "sorted_wrt before (silences @ [(s, t)])"
          using Cons.prems(3) by (simp add: sorted_wrt_append)
        show "\<forall>x \<in> set (silences @ [(s, t)]). \<forall>e \<in> set rest. fst x \<le> snd e \<and> snd x \<le> snd e"
          using sub cs(2) le by auto
        show "\<forall>s'. None = Some s' \<longrightarrow>
                (\<forall>x \<in> set (silences @ [(s, t)]). fst x \<le> s' \<and> snd x \<le> s')
                \<and> (\<forall>e \<in> set rest. s' \<le> snd e)" by simp
        show "None = None \<longrightarrow>
                (\<forall>e \<in> set (take 1 rest). fst e \<noteq> ''start''
                   \<longrightarrow> silences @ [(s, t)] = [] \<and> 0 \<le> snd e)"
          using nxt_start [OF False] by blast
      qed
      then show ?thesis using False Some by (simp add: ev)
    qed
  qed
qed

lemma pair_silences_events:
  "pair_silences starts ends duration =
     (case pair_silences_loop (silence_events starts ends) [] None of
        (silences, current_start) \<Rightarrow>
          (case current_start of
             Some s \<Rightarrow> silences @ [(s, duration)]
           | None \<Rightarrow> silences))"
  by (simp add: pair_silences_def silence_events_def Let_def)

text \<open>
  Claim C2, as stated, on one START at 1 s and two ENDs at 2 s and 3 s: the second END
  is dangling, its interval starts at 0, and the result \<open>[(1, 2), (0, 3)]\<close> is neither
  ordered by start nor free of overlap.
\<close>

theorem pair_silences_dangling_end_counterexample:
  "pair_silences [1] [2, 3] 10 = [(1, 2), (0, 3)]
   \<and> \<not> sorted_by_start (pair_silences [1] [2, 3] 10)
   \<and> \<not> non_overlapping (pair_silences [1] [2, 3] 10)"
proof -
  have p: "pair_silences [1] [2, 3] 10 = [(1, 2), (0, 3)]"
    by (simp add: pair_silences_def)
  show ?thesis unfolding p
    by (simp add: sorted_by_start_def non_overlapping_simps)
qed

text \<open>
  Claim C2, amended. For non-negative timestamps and every duration: when no END event
  directly follows another END event in the timestamp-ordered event sequence (so that
  only the very first event can be a dangling END; duplicate STARTs and an unclosed
  START are allowed), the pairer returns a sequence ordered by start ascending in which
  each interval ends no later than the next one starts.
\<close>

theorem pair_silences_ordered:
  assumes nonneg: "\<forall>v \<in> set starts \<union> set ends. 0 \<le> v"
    and sep: "ends_separated (silence_events starts ends)"
  shows "sorted_by_start (pair_silences starts ends duration)
         \<and> non_overlapping (pair_silences starts ends duration)"
proof -
  define evs where "evs = silence_events starts ends"
  have srt: "sorted (map snd evs)"
    by (simp add: evs_def silence_events_def)
  have suc: "successively (\<lambda>a b. fst a = ''start'' \<or> fst b = ''start'') evs"
    using sep by (simp add: evs_def ends_separated_def)
  have "\<forall>e \<in> set evs. 0 \<le> snd e"
    using nonneg by (auto simp: evs_def silence_events_def)
  then have first: "\<forall>e \<in> set (take 1 evs). fst e \<noteq> ''start'' \<longrightarrow> [] = ([] :: segment list) \<and> 0 \<le> snd e"
    by (auto dest: in_set_takeD)
  obtain sil c where res: "pair_silences_loop evs [] None = (sil, c)"
    by (cases "pair_silences_loop evs [] None")
  from pair_silences_loop_ordered [OF srt suc, of "[]" None] first res
  have inv: "sorted_wrt before sil" "\<forall>s. c = Some s \<longrightarrow> (\<forall>x \<in> set sil. fst x \<le> s \<and> snd x \<le> s)"
    by simp_all
  have "sorted_wrt before (pair_silences starts ends duration)"
  proof (cases c)
    case None
    then show ?thesis using inv(1) res by (simp add: pair_silences_events evs_def [symmetric])
  next
    case (Some s)
    then have "\<forall>x \<in> set sil. before x (s, duration)"
      using inv(2) by (simp add: before_def)
    then have "sorted_wrt before (sil @ [(s, duration)])"
      using inv(1) by (simp add: sorted_wrt_append)
    then show ?thesis using Some res by (simp add: pair_silences_events evs_def [symmetric])
  qed
  then show ?thesis by (rule before_imp_ordered)
qed

theorem pair_silences_ordered_witness:
  "pair_silences [1, 5, 55 / 10, 8] [2, 6] 10 = [(1, 2), (5, 6), (8, 10)]"
proof -
  have a: "\<forall>v \<in> set [1, 5, 55 / 10, 8] \<union> set [2, 6 :: real]. 0 \<le> v" by simp
  have b: "ends_separated (silence_events [1, 5, 55 / 10, 8] [2, 6])"
    by (simp add: ends_separated_def silence_events_def)
  show ?thesis
    using pair_silences_ordered [OF a b, of 10]
    by (simp add: pair_silences_def)
qed

end
